theory Spec2Isabelle
  imports Complex_Main "HOL-Library.AList"
begin

section \<open>Setting values and plain objects\<close>

text \<open>
  The settings are flat JavaScript objects whose properties hold scalars. A value is a
  tagged union of the scalar kinds; numbers are rationals, with \<open>NaN\<close> kept apart because
  the strict equality \<open>===\<close> of the source tells it from itself. Nested objects, arrays,
  infinities and the sign of zero are outside the model, as are properties inherited from
  \<open>Object.prototype\<close>.
\<close>

datatype jsval = VUndefined | VNull | VBool bool | VNum rat | VNaN | VStr string

definition strict_eq :: "jsval \<Rightarrow> jsval \<Rightarrow> bool" where
  "strict_eq x y = (x = y \<and> x \<noteq> VNaN)"

text \<open>
  An object is the list of its own enumerable properties in insertion order, which is the
  order of \<open>Object.entries\<close>; \<open>Object.keys(x).length\<close> is the length of the list (an
  object has each key once, and assignment and deletion keep it so).
\<close>

type_synonym obj = "(string \<times> jsval) list"

definition hasOwnProperty :: "obj \<Rightarrow> string \<Rightarrow> bool" where
  "hasOwnProperty ob key = (map_of ob key \<noteq> None)"

definition getprop :: "obj \<Rightarrow> string \<Rightarrow> jsval" where
  "getprop ob key = (case map_of ob key of None \<Rightarrow> VUndefined | Some v \<Rightarrow> v)"

definition assign :: "obj \<Rightarrow> string \<Rightarrow> jsval \<Rightarrow> obj" where
  "assign ob key v = AList.update key v ob"

definition delete_prop :: "obj \<Rightarrow> string \<Rightarrow> obj" where
  "delete_prop ob key = AList.delete key ob"

text \<open>
  \<open>deepEqual\<close> of the source, on two flat objects: the same number of keys, and every key of
  the first holds strictly equal values in both (a key the second lacks reads \<open>undefined\<close>
  there). On scalars it is \<open>===\<close>.
\<close>

definition deepEqual :: "obj \<Rightarrow> obj \<Rightarrow> bool" where
  "deepEqual x y =
     (length x = length y \<and> list_all (\<lambda>key. strict_eq (getprop x key) (getprop y key)) (map fst x))"

text \<open>
  \<open>JSON.stringify\<close> drops the properties holding \<open>undefined\<close> and writes \<open>NaN\<close> as
  \<open>null\<close>. The document on disk is kept as the object it parses to, so the white space of
  the \<open>prettyPrint\<close> option is not modelled. A file is missing, or does not parse, or
  parses to a flat object.
\<close>

definition stringify :: "obj \<Rightarrow> obj" where
  "stringify ob =
     map (\<lambda>(key, v). (key, if v = VNaN then VNull else v)) (filter (\<lambda>(key, v). v \<noteq> VUndefined) ob)"

datatype file_content = Missing | Unparsable | Json obj

section \<open>The store of the main process\<close>

datatype error = Error string | TypeError string

definition not_initialized :: error where
  "not_initialized = Error ''Init the module first (method init). If you are using a async operation please wait until the init promise is resolved''"

definition invalid_key :: error where
  "invalid_key = TypeError ''Enter a valid key name''"

text \<open>
  A field descriptor of the schema. Only \<open>default\<close> is read by the store; the type tag and
  the constraints are read by the validator library, which is not part of the repository:
  its compiled checker is a parameter of the store (field \<open>check\<close>).
\<close>

datatype descriptor = Descriptor (schema_default: jsval)

type_synonym schema = "(string \<times> descriptor) list"

datatype ValidationError = ValidationError (field: string) (message: "string option")

datatype check_result = CheckTrue | CheckErrors "ValidationError list"

datatype errors = ErrFalse | ErrString string | ErrList "errors list"

record result =
  status :: bool
  default_value :: jsval
  errors :: errors

text \<open>
  The options that the methods read. The path options only name the file, \<open>prettyPrint\<close>
  only formats it, and \<open>writeBeforeQuit\<close> installs a handler that calls \<open>writeSync\<close>
  when no save is in flight.
\<close>

record options =
  validateFile :: bool
  validate_option :: bool
  mkdirOnStartup :: bool
  defaultOnFailValidation :: bool
  watchFile :: bool

text \<open>
  What a suspended \<open>_writeJSONFile\<close> returns to once its file write has settled: to
  \<open>write\<close> (or to nobody, for the write issued again), or to the rest of \<open>init\<close>.
\<close>

datatype continuation = CReturn | CInit

text \<open>
  The object fields of \<open>ElectronJSONSettingsStoreMain\<close>, followed by the part of the
  world it acts on. \<open>cachedSettings\<close> and \<open>defaults\<close> are references into \<open>heap\<close>:
  the source assigns objects by reference and mutates them in place. \<open>pendingWrites\<close>
  holds the calls of \<open>fs.promises.writeFile\<close> that have not settled, each with the
  \<open>data\<close> reference of the suspended \<open>_writeJSONFile\<close> and the string it serialized.
  \<open>fsWrites\<close> logs every call of \<open>fs.writeFile\<close> and \<open>fs.writeFileSync\<close> with the
  number of file writes already in flight when it was made. \<open>watcher\<close> is the
  reference \<open>_watcher\<close>; \<open>openWatchers\<close> are the watchers made by \<open>fs.watch\<close> and not
  closed, which is where the file system delivers its events. \<open>timers\<close> holds the pending
  \<open>setTimeout\<close> callbacks of the watcher closures, each with the closure it belongs to
  (its \<open>fsWait\<close> is set while it has one) and the time it is due. \<open>sent\<close> logs the IPC
  messages sent to listeners, \<open>fileChangedCalls\<close> counts the calls of \<open>_fileChanged\<close>.
  Times are in nanoseconds, as \<open>process.hrtime.bigint()\<close> gives them. Private methods
  are named without their underscore; \<open>_set\<close> and \<open>_watchFile\<close>, whose names are
  taken, are \<open>set_private\<close> and \<open>watchFile_private\<close>, and the public \<open>set\<close> is
  \<open>set_public\<close>.
\<close>

record store =
  options :: options
  cachedSettings :: nat
  isWritingFlag :: bool
  schema :: schema
  watcher :: "nat option"
  lastWriteHrtime :: nat
  writeAgainFlag :: bool
  hasInitialized :: bool
  check :: "obj \<Rightarrow> check_result"
  defaults :: nat
  windowListeners :: "nat option list"
  heap :: "nat \<Rightarrow> obj"
  nextAddr :: nat
  fileOnDisk :: file_content
  diskWritable :: bool
  dirCreatable :: bool
  now :: nat
  timers :: "(nat \<times> nat) list"
  openWatchers :: "nat list"
  nextWatcher :: nat
  pendingWrites :: "(nat \<times> obj \<times> continuation) list"
  fsWrites :: "(nat \<times> obj) list"
  sent :: "(nat \<times> obj) list"
  fileChangedCalls :: nat

definition alloc :: "obj \<Rightarrow> store \<Rightarrow> nat \<times> store" where
  "alloc ob s = (nextAddr s, s\<lparr>heap := (heap s)(nextAddr s := ob), nextAddr := Suc (nextAddr s)\<rparr>)"

definition cache :: "store \<Rightarrow> obj" where
  "cache s = heap s (cachedSettings s)"

subsection \<open>Reading\<close>

definition getDefault :: "string \<Rightarrow> store \<Rightarrow> error + jsval" where
  "getDefault key s =
     (if \<not> hasInitialized s then Inl not_initialized
      else if key = [] then Inl invalid_key
      else if hasOwnProperty (heap s (defaults s)) key then
        (case map_of (schema s) key of
           None \<Rightarrow> Inl (TypeError ''Cannot read property default of undefined'')
         | Some d \<Rightarrow> Inr (schema_default d))
      else Inr VUndefined)"

definition get :: "string \<Rightarrow> store \<Rightarrow> error + jsval" where
  "get key s =
     (if \<not> hasInitialized s then Inl not_initialized
      else if key = [] then Inl invalid_key
      else if \<not> hasOwnProperty (cache s) key then
        (case map_of (schema s) key of
           Some d \<Rightarrow> Inr (schema_default d)
         | None \<Rightarrow> Inr VUndefined)
      else Inr (getprop (cache s) key))"

definition getAll :: "store \<Rightarrow> error + obj" where
  "getAll s = (if \<not> hasInitialized s then Inl not_initialized else Inr (cache s))"

definition getDefaults :: "store \<Rightarrow> obj" where
  "getDefaults s = heap s (defaults s)"

definition has :: "string \<Rightarrow> store \<Rightarrow> error + bool" where
  "has key s =
     (if \<not> hasInitialized s then Inl not_initialized
      else if key = [] then Inl invalid_key
      else Inr (hasOwnProperty (cache s) key))"

definition fastValidateSettings :: "store \<Rightarrow> obj \<Rightarrow> check_result" where
  "fastValidateSettings s ob = check s ob"

definition errorsList :: "ValidationError list \<Rightarrow> string list" where
  "errorsList es = concat (map (\<lambda>e. case message e of None \<Rightarrow> [] | Some m \<Rightarrow> [m]) es)"

definition validate :: "string \<Rightarrow> jsval \<Rightarrow> store \<Rightarrow> error + result" where
  "validate key v s =
     (if key = [] then Inl invalid_key
      else case fastValidateSettings s [(key, v)] of
        CheckTrue \<Rightarrow>
          (case getDefault key s of
             Inl e \<Rightarrow> Inl e
           | Inr d \<Rightarrow> Inr \<lparr>status = True, default_value = d, errors = ErrFalse\<rparr>)
      | CheckErrors es \<Rightarrow>
          (case getDefault key s of
             Inl e \<Rightarrow> Inl e
           | Inr d \<Rightarrow> Inr \<lparr>status = False, default_value = d,
                            errors = ErrList (map ErrString (errorsList es))\<rparr>))"

subsection \<open>Changing the cache\<close>

definition sendIPCUpdateSettings :: "store \<Rightarrow> store" where
  "sendIPCUpdateSettings s =
     s\<lparr>sent := sent s @
        concat (map (\<lambda>listener. case listener of None \<Rightarrow> [] | Some w \<Rightarrow> [(w, cache s)])
                    (windowListeners s))\<rparr>"

definition setCachedSettings :: "nat \<Rightarrow> store \<Rightarrow> store" where
  "setCachedSettings settings s =
     (let changedSettings = deepEqual (heap s settings) (cache s)
      in if \<not> changedSettings then sendIPCUpdateSettings (s\<lparr>cachedSettings := settings\<rparr>)
         else s)"

definition setCachedSettingsKey :: "string \<Rightarrow> jsval \<Rightarrow> store \<Rightarrow> store" where
  "setCachedSettingsKey key v s =
     (let changedSettings = strict_eq (getprop (cache s) key) v
      in if \<not> changedSettings then
           sendIPCUpdateSettings (s\<lparr>heap := (heap s)(cachedSettings s := assign (cache s) key v)\<rparr>)
         else s)"

definition set_private :: "string \<Rightarrow> jsval \<Rightarrow> store \<Rightarrow> (error + result) \<times> store" where
  "set_private key v s =
     (if \<not> hasOwnProperty (cache s) key then
        (if hasOwnProperty (heap s (defaults s)) key then
           (let s' = setCachedSettingsKey key (getprop (heap s (defaults s)) key) s
            in case getDefault key s' of
                 Inl e \<Rightarrow> (Inl e, s')
               | Inr d \<Rightarrow> (Inr \<lparr>status = True, default_value = d, errors = ErrFalse\<rparr>, s'))
         else (Inr \<lparr>status = False, default_value = VUndefined,
                     errors = ErrString ''Key not found in cached settings''\<rparr>, s))
      else if \<not> validate_option (options s) then
        (let s' = setCachedSettingsKey key v s
         in case getDefault key s' of
              Inl e \<Rightarrow> (Inl e, s')
            | Inr d \<Rightarrow> (Inr \<lparr>status = True, default_value = d, errors = ErrFalse\<rparr>, s'))
      else
        (case validate key v s of
           Inl e \<Rightarrow> (Inl e, s)
         | Inr validationResults \<Rightarrow>
             if status validationResults then
               (Inr validationResults, setCachedSettingsKey key v s)
             else if defaultOnFailValidation (options s) then
               (let s' = setCachedSettingsKey key (getprop (heap s (defaults s)) key) s
                in case getDefault key s' of
                     Inl e \<Rightarrow> (Inl e, s')
                   | Inr d \<Rightarrow> (Inr \<lparr>status = True, default_value = d,
                                     errors = ErrString ''Default setting was applied''\<rparr>, s'))
             else (Inr validationResults, s)))"

text \<open>
  The public \<open>set\<close> takes a key or an object of keys and values. What it throws before its
  \<open>try\<close> is \<open>Inl\<close>; what is thrown inside is caught and returned as the value.
\<close>

datatype set_key = Key string | Keys obj

datatype set_return = Returned result | Caught error

fun set_each :: "obj \<Rightarrow> bool \<Rightarrow> errors list \<Rightarrow> store \<Rightarrow> (error + result) \<times> store" where
  "set_each [] st errs s =
     (Inr \<lparr>status = st, default_value = VUndefined, errors = ErrList errs\<rparr>, s)"
| "set_each ((k, v) # rest) st errs s =
     (case set_private k v s of
        (Inl e, s') \<Rightarrow> (Inl e, s')
      | (Inr setResultArray, s') \<Rightarrow>
          if \<not> status setResultArray then set_each rest False (errs @ [errors setResultArray]) s'
          else set_each rest st errs s')"

definition set_public :: "set_key \<Rightarrow> jsval \<Rightarrow> store \<Rightarrow> (error + set_return) \<times> store" where
  "set_public key v s =
     (if \<not> hasInitialized s then (Inl not_initialized, s)
      else case key of
        Key k \<Rightarrow>
          if v = VUndefined then (Inl (TypeError ''You need to define a object''), s)
          else if k = [] then (Inl invalid_key, s)
          else (case set_private k v s of
                  (Inl e, s') \<Rightarrow> (Inr (Caught e), s')
                | (Inr setResult, s') \<Rightarrow> (Inr (Returned setResult), s'))
      | Keys entries \<Rightarrow>
          (case set_each entries True [] s of
             (Inl e, s') \<Rightarrow> (Inr (Caught e), s')
           | (Inr setResultArrayGroup, s') \<Rightarrow> (Inr (Returned setResultArrayGroup), s')))"

definition setAll :: "nat \<Rightarrow> store \<Rightarrow> (error + unit) \<times> store" where
  "setAll data s =
     (if \<not> hasInitialized s then (Inl not_initialized, s)
      else if \<not> validate_option (options s) then (Inr (), setCachedSettings data s)
      else case fastValidateSettings s (heap s data) of
        CheckTrue \<Rightarrow> (Inr (), setCachedSettings data s)
      | CheckErrors es \<Rightarrow>
          if defaultOnFailValidation (options s) then (Inr (), setCachedSettings (defaults s) s)
          else (case errorsList es of
                  [] \<Rightarrow> (Inr (), s)
                | m # _ \<Rightarrow> (Inl (Error (''Set All validation fail: '' @ m)), s)))"

definition unset :: "string \<Rightarrow> store \<Rightarrow> (error + bool) \<times> store" where
  "unset key s =
     (if key = [] then (Inl invalid_key, s)
      else if \<not> hasOwnProperty (cache s) key then (Inr False, s)
      else (Inr True, s\<lparr>heap := (heap s)(cachedSettings s := delete_prop (cache s) key)\<rparr>))"

definition reset :: "store \<Rightarrow> store" where
  "reset s = setCachedSettings (defaults s) s"

section \<open>The watcher\<close>

definition watchFile_private :: "store \<Rightarrow> store" where
  "watchFile_private s =
     s\<lparr>watcher := Some (nextWatcher s), openWatchers := openWatchers s @ [nextWatcher s],
       nextWatcher := Suc (nextWatcher s)\<rparr>"

definition closeWatcher :: "store \<Rightarrow> store" where
  "closeWatcher s =
     (case watcher s of
        None \<Rightarrow> s
      | Some w \<Rightarrow> s\<lparr>watcher := None, openWatchers := removeAll w (openWatchers s)\<rparr>)"

definition disableFileWatcher :: "store \<Rightarrow> bool \<times> store" where
  "disableFileWatcher s =
     (if watcher s \<noteq> None \<and> watchFile (options s) then
        (True, (closeWatcher s)\<lparr>options := (options s)\<lparr>watchFile := False\<rparr>\<rparr>)
      else (False, s))"

section \<open>Saving\<close>

text \<open>
  The synchronous save. \<open>fs.writeFileSync\<close> throws when the disk cannot be written,
  which leaves the method at that point.
\<close>

function writeJSONFileSync :: "nat \<Rightarrow> store \<Rightarrow> (error + unit) \<times> store" where
  "writeJSONFileSync data s =
     (if isWritingFlag s then (Inr (), s\<lparr>writeAgainFlag := True\<rparr>)
      else
        let s1 = (closeWatcher s)\<lparr>isWritingFlag := True\<rparr>;
            dataString = stringify (heap s1 data);
            s2 = s1\<lparr>fsWrites := fsWrites s1 @ [(length (pendingWrites s1), dataString)]\<rparr>
        in if \<not> diskWritable s2 then (Inl (Error ''Error: EACCES: permission denied''), s2)
           else
             let s3 = s2\<lparr>fileOnDisk := Json dataString, isWritingFlag := False,
                        lastWriteHrtime := now s2\<rparr>;
                 s4 = (if watchFile (options s3) \<and> watcher s3 = None then watchFile_private s3
                       else s3)
             in if writeAgainFlag s4 then writeJSONFileSync data (s4\<lparr>writeAgainFlag := False\<rparr>)
                else (Inr (), s4))"
  by pat_completeness auto
termination
  by (relation "measure (\<lambda>(data, s). if writeAgainFlag s then 1 else 0)")
     (auto simp: watchFile_private_def closeWatcher_def split: option.splits if_splits)

declare writeJSONFileSync.simps [simp del]

definition toString :: "error \<Rightarrow> string" where
  "toString e = (case e of Error m \<Rightarrow> ''Error: '' @ m | TypeError m \<Rightarrow> ''TypeError: '' @ m)"

datatype write_return = WriteTrue | WriteFailed string

definition writeSync :: "store \<Rightarrow> write_return \<times> store" where
  "writeSync s =
     (case writeJSONFileSync (cachedSettings s) s of
        (Inr u, s') \<Rightarrow> (WriteTrue, s')
      | (Inl e, s') \<Rightarrow> (WriteFailed (toString e), s'))"

text \<open>
  The asynchronous save, cut at its \<open>await\<close>. \<open>writeJSONFile\<close> is the part that runs
  when the method is called: it returns \<open>True\<close> when the method has returned (the request
  was coalesced) and \<open>False\<close> when it is suspended on \<open>fs.promises.writeFile\<close>.
  \<open>writeJSONFile_resume\<close> is the part that runs after the file write has succeeded; a
  file write that fails rejects the promise, and that part never runs.
\<close>

definition writeJSONFile :: "nat \<Rightarrow> continuation \<Rightarrow> store \<Rightarrow> bool \<times> store" where
  "writeJSONFile data k s =
     (if isWritingFlag s then (True, s\<lparr>writeAgainFlag := True\<rparr>)
      else
        let s1 = (closeWatcher s)\<lparr>isWritingFlag := True\<rparr>;
            dataString = stringify (heap s1 data)
        in (False, s1\<lparr>fsWrites := fsWrites s1 @ [(length (pendingWrites s1), dataString)],
                      pendingWrites := pendingWrites s1 @ [(data, dataString, k)]\<rparr>))"

definition writeJSONFile_resume :: "nat \<Rightarrow> store \<Rightarrow> store" where
  "writeJSONFile_resume data s =
     (let s1 = s\<lparr>isWritingFlag := False, lastWriteHrtime := now s\<rparr>;
          s2 = (if watchFile (options s1) \<and> watcher s1 = None then watchFile_private s1 else s1)
      in if writeAgainFlag s2 then snd (writeJSONFile data CReturn (s2\<lparr>writeAgainFlag := False\<rparr>))
         else s2)"

text \<open>
  \<open>write\<close> (here \<open>write_public\<close>) returns \<open>Some WriteTrue\<close> when its promise is resolved at once, and \<open>None\<close>
  while it waits for the file write to settle.
\<close>

definition write_public :: "store \<Rightarrow> write_return option \<times> store" where
  "write_public s =
     (case writeJSONFile (cachedSettings s) CReturn s of
        (True, s') \<Rightarrow> (Some WriteTrue, s')
      | (False, s') \<Rightarrow> (None, s'))"

definition resetAndWriteSync :: "store \<Rightarrow> write_return \<times> store" where
  "resetAndWriteSync s = writeSync (reset s)"

definition resetAndWrite :: "store \<Rightarrow> write_return option \<times> store" where
  "resetAndWrite s = write_public (reset s)"

definition setAndWriteSync :: "set_key \<Rightarrow> jsval \<Rightarrow> store \<Rightarrow> (error + set_return) \<times> store" where
  "setAndWriteSync key v s =
     (case set_public key v s of
        (Inl e, s') \<Rightarrow> (Inl e, s')
      | (Inr (Caught e), s') \<Rightarrow> (Inr (Caught e), s')
      | (Inr (Returned setOperation), s') \<Rightarrow>
          if \<not> status setOperation then (Inr (Returned setOperation), s')
          else (case writeSync s' of
                  (WriteTrue, s'') \<Rightarrow> (Inr (Returned setOperation), s'')
                | (WriteFailed m, s'') \<Rightarrow>
                    (Inr (Returned (setOperation\<lparr>errors := ErrString (''Write operation failed! '' @ m),
                                                 status := False\<rparr>)), s'')))"

text \<open>
  \<open>setAndWrite\<close> up to its \<open>await\<close>: \<open>Inr None\<close> while it waits for the file write.
\<close>

definition setAndWrite :: "set_key \<Rightarrow> jsval \<Rightarrow> store \<Rightarrow> (error + set_return option) \<times> store" where
  "setAndWrite key v s =
     (case set_public key v s of
        (Inl e, s') \<Rightarrow> (Inl e, s')
      | (Inr (Caught e), s') \<Rightarrow> (Inr (Some (Caught e)), s')
      | (Inr (Returned setOperation), s') \<Rightarrow>
          if \<not> status setOperation then (Inr (Some (Returned setOperation)), s')
          else (case write_public s' of
                  (Some w, s'') \<Rightarrow> (Inr (Some (Returned setOperation)), s'')
                | (None, s'') \<Rightarrow> (Inr None, s'')))"

section \<open>Loading and reconciling\<close>

text \<open>
  The loop that overwrites every field named by a validation error with its schema
  default, in the cache object itself. A field the schema does not have makes
  \<open>this._schema[keyField].default\<close> throw.
\<close>

fun applyDefaults :: "ValidationError list \<Rightarrow> store \<Rightarrow> (error + unit) \<times> store" where
  "applyDefaults [] s = (Inr (), s)"
| "applyDefaults (e # es) s =
     (case map_of (schema s) (field e) of
        None \<Rightarrow> (Inl (TypeError ''Cannot read property default of undefined''), s)
      | Some d \<Rightarrow>
          applyDefaults es
            (s\<lparr>heap := (heap s)(cachedSettings s := assign (cache s) (field e) (schema_default d))\<rparr>))"

definition validateSettingsSync :: "nat \<Rightarrow> store \<Rightarrow> (error + unit) \<times> store" where
  "validateSettingsSync settings s =
     (case fastValidateSettings s (heap s settings) of
        CheckTrue \<Rightarrow> (Inr (), s)
      | CheckErrors es \<Rightarrow>
          if defaultOnFailValidation (options s) then
            (case applyDefaults es s of
               (Inl e, s') \<Rightarrow> (Inl e, s')
             | (Inr u, s') \<Rightarrow> writeJSONFileSync (cachedSettings s') s')
          else (case errorsList es of
                  [] \<Rightarrow> (Inr (), s)
                | m # _ \<Rightarrow> (Inl (Error (''Initial settings validation fail: '' @ m)), s)))"

text \<open>\<open>_validateSettings\<close> up to its \<open>await\<close>: \<open>Inr False\<close> while it waits.\<close>

definition validateSettings :: "nat \<Rightarrow> store \<Rightarrow> (error + bool) \<times> store" where
  "validateSettings settings s =
     (case fastValidateSettings s (heap s settings) of
        CheckTrue \<Rightarrow> (Inr True, s)
      | CheckErrors es \<Rightarrow>
          if defaultOnFailValidation (options s) then
            (case applyDefaults es s of
               (Inl e, s') \<Rightarrow> (Inl e, s')
             | (Inr u, s') \<Rightarrow>
                 (case writeJSONFile (cachedSettings s') CInit s' of
                    (resolved, s'') \<Rightarrow> (Inr resolved, s'')))
          else (case errorsList es of
                  [] \<Rightarrow> (Inr True, s)
                | m # _ \<Rightarrow> (Inl (Error (''Initial settings validation fail: '' @ m)), s)))"

definition fileChanged :: "store \<Rightarrow> store" where
  "fileChanged s0 =
     (let s = s0\<lparr>fileChangedCalls := Suc (fileChangedCalls s0)\<rparr>
      in case fileOnDisk s of
           Missing \<Rightarrow> s
         | Unparsable \<Rightarrow> s
         | Json doc \<Rightarrow>
             (case alloc doc s of
                (parsedResult, s1) \<Rightarrow>
                  if \<not> validateFile (options s1) then setCachedSettings parsedResult s1
                  else (case fastValidateSettings s1 (heap s1 parsedResult) of
                          CheckTrue \<Rightarrow> setCachedSettings parsedResult s1
                        | CheckErrors es \<Rightarrow>
                            if defaultOnFailValidation (options s1) then
                              (case applyDefaults es s1 of
                                 (Inl e, s2) \<Rightarrow> s2
                               | (Inr u, s2) \<Rightarrow> snd (writeJSONFileSync (cachedSettings s2) s2))
                            else s1)))"

text \<open>
  The callback that \<open>_watchFile\<close> gives to \<open>fs.watch\<close>, for a \<open>change\<close> event with a
  file name, in the closure \<open>w\<close>. The delay of \<open>setTimeout\<close> is 1000 ms and the window
  after the store's own write is \<open>1e10\<close> ns.
\<close>

definition fsWait :: "nat \<Rightarrow> store \<Rightarrow> bool" where
  "fsWait w s = list_ex (\<lambda>t. fst t = w) (timers s)"

definition watch_callback :: "nat \<Rightarrow> store \<Rightarrow> store" where
  "watch_callback w s =
     (if fsWait w s \<or> isWritingFlag s then s
      else if now s - lastWriteHrtime s < 10000000000 then s
      else s\<lparr>timers := timers s @ [(w, now s + 1000000000)]\<rparr>)"

text \<open>The callback of \<open>setTimeout\<close>: it clears \<open>fsWait\<close> and calls \<open>_fileChanged\<close>.\<close>

definition timer_callback :: "nat \<times> nat \<Rightarrow> store \<Rightarrow> store" where
  "timer_callback t s = fileChanged (s\<lparr>timers := remove1 t (timers s)\<rparr>)"

definition initFinish :: "store \<Rightarrow> store" where
  "initFinish s =
     (if watchFile (options s) then watchFile_private s else s)\<lparr>hasInitialized := True\<rparr>"

definition initSync :: "store \<Rightarrow> (error + unit) \<times> store" where
  "initSync s =
     (if \<not> dirCreatable s then (Inl (Error ''Cannot create folder''), s)
      else case fileOnDisk s of
        Missing \<Rightarrow> (Inl (Error ''ENOENT: no such file or directory''), s)
      | Unparsable \<Rightarrow>
          (let s1 = setCachedSettings (defaults s) s
           in case writeJSONFileSync (cachedSettings s1) s1 of
                (Inl e, s2) \<Rightarrow> (Inl e, s2)
              | (Inr u, s2) \<Rightarrow> (Inr (), initFinish s2))
      | Json doc \<Rightarrow>
          (case alloc doc s of
             (parsedResult, s0) \<Rightarrow>
               let s1 = setCachedSettings parsedResult s0
               in if validateFile (options s1) then
                    (case validateSettingsSync (cachedSettings s1) s1 of
                       (Inl e, s2) \<Rightarrow> (Inl e, s2)
                     | (Inr u, s2) \<Rightarrow> (Inr (), initFinish s2))
                  else (Inr (), initFinish s1)))"

text \<open>
  \<open>init\<close>, run from the moment its file read settles: \<open>Inr True\<close> when it has completed,
  \<open>Inr False\<close> while it waits for a file write, after which \<open>initFinish\<close> runs.
\<close>

definition init :: "store \<Rightarrow> (error + bool) \<times> store" where
  "init s =
     (if mkdirOnStartup (options s) \<and> \<not> dirCreatable s then (Inl (Error ''Cannot create folder''), s)
      else case fileOnDisk s of
        Missing \<Rightarrow> (Inl (Error ''ENOENT: no such file or directory''), s)
      | Unparsable \<Rightarrow>
          (let s1 = setCachedSettings (defaults s) s
           in case writeJSONFile (cachedSettings s1) CInit s1 of
                (True, s2) \<Rightarrow> (Inr True, initFinish s2)
              | (False, s2) \<Rightarrow> (Inr False, s2))
      | Json doc \<Rightarrow>
          (case alloc doc s of
             (parsedResult, s0) \<Rightarrow>
               let s1 = setCachedSettings parsedResult s0
               in if \<not> validateFile (options s1) then (Inr True, initFinish s1)
                  else (case validateSettings (cachedSettings s1) s1 of
                          (Inl e, s2) \<Rightarrow> (Inl e, s2)
                        | (Inr True, s2) \<Rightarrow> (Inr True, initFinish s2)
                        | (Inr False, s2) \<Rightarrow> (Inr False, s2))))"

section \<open>Construction\<close>

definition retreiveDefaults :: "schema \<Rightarrow> obj" where
  "retreiveDefaults sch = fold (\<lambda>(key, d) dflts. assign dflts key (schema_default d)) sch []"

text \<open>
  \<open>_checkValidSchemaObject\<close>: an empty schema is refused. A descriptor without a default
  is refused too; the type \<open>descriptor\<close> has none of these.
\<close>

definition checkValidSchemaObject :: "schema \<Rightarrow> error option" where
  "checkValidSchemaObject sch =
     (if sch = [] then Some (TypeError ''The schema option cannot be empty.'') else None)"

text \<open>
  The constructor, given the schema, the checker compiled from it, the complete options
  and the document on disk. The defaults object is made first and the empty cache second;
  the clock starts at 0.
\<close>

definition construct :: "schema \<Rightarrow> (obj \<Rightarrow> check_result) \<Rightarrow> options \<Rightarrow> file_content \<Rightarrow> store" where
  "construct sch chk opts f =
     \<lparr>options = opts, cachedSettings = 1, isWritingFlag = False, schema = sch, watcher = None,
      lastWriteHrtime = 0, writeAgainFlag = False, hasInitialized = False, check = chk,
      defaults = 0, windowListeners = [None],
      heap = (\<lambda>a. [])(0 := retreiveDefaults sch), nextAddr = 2, fileOnDisk = f,
      diskWritable = True, dirCreatable = True, now = 0, timers = [], openWatchers = [],
      nextWatcher = 0, pendingWrites = [], fsWrites = [], sent = [], fileChangedCalls = 0\<rparr>"

definition new_store :: "schema \<Rightarrow> (obj \<Rightarrow> check_result) \<Rightarrow> options \<Rightarrow> file_content \<Rightarrow> error + store" where
  "new_store sch chk opts f =
     (case checkValidSchemaObject sch of
        Some e \<Rightarrow> Inl e
      | None \<Rightarrow> Inr (construct sch chk opts f))"

section \<open>The store in time\<close>

text \<open>
  Everything that can happen to a constructed store, one event at a time: a call of a
  public method (by the main process or through its IPC handler, which calls the same
  method), the settling of a pending file write, a \<open>change\<close> event of the file system
  delivered to every open watcher, the passing of time (due timers fire in the order they
  were set), a renderer registering as listener, and the world changing the file or the
  disk. \<open>setAll\<close> receives a fresh object. The code between two \<open>await\<close>s runs
  without interruption, so each event is one step. \<open>Settle i ok\<close> settles the pending
  file write number \<open>i\<close>: when \<open>ok\<close>, the file takes the serialized string and the
  suspended method goes on; otherwise its promise is rejected, \<open>write\<close> resolves to the
  error string and nothing else runs.
\<close>

datatype event =
    Set set_key jsval
  | SetAll obj
  | Unset string
  | Reset
  | Write
  | WriteSync
  | SetAndWrite set_key jsval
  | SetAndWriteSync set_key jsval
  | ResetAndWrite
  | ResetAndWriteSync
  | Settle nat bool
  | FsChange
  | Advance nat
  | DisableFileWatcher
  | AddListener nat
  | ExternalEdit file_content
  | DiskWritable bool
  | InitSync
  | Init

definition resume_continuation :: "continuation \<Rightarrow> store \<Rightarrow> store" where
  "resume_continuation k s = (case k of CReturn \<Rightarrow> s | CInit \<Rightarrow> initFinish s)"

definition settle :: "nat \<Rightarrow> bool \<Rightarrow> store \<Rightarrow> store" where
  "settle i ok s =
     (if i < length (pendingWrites s) then
        (case pendingWrites s ! i of
           (data, dataString, k) \<Rightarrow>
             let s1 = s\<lparr>pendingWrites := take i (pendingWrites s) @ drop (Suc i) (pendingWrites s)\<rparr>
             in if ok then
                  resume_continuation k (writeJSONFile_resume data (s1\<lparr>fileOnDisk := Json dataString\<rparr>))
                else s1)
      else s)"

definition advance :: "nat \<Rightarrow> store \<Rightarrow> store" where
  "advance d s =
     (let s1 = s\<lparr>now := now s + d\<rparr>
      in fold timer_callback (filter (\<lambda>t. snd t \<le> now s1) (timers s1)) s1)"

definition addListener :: "nat \<Rightarrow> store \<Rightarrow> store" where
  "addListener w s =
     (if List.member (windowListeners s) (Some w) then s
      else s\<lparr>windowListeners := windowListeners s @ [Some w]\<rparr>)"

fun step :: "event \<Rightarrow> store \<Rightarrow> store" where
  "step (Set key v) s = snd (set_public key v s)"
| "step (SetAll ob) s = (case alloc ob s of (data, s') \<Rightarrow> snd (setAll data s'))"
| "step (Unset key) s = snd (unset key s)"
| "step Reset s = reset s"
| "step Write s = snd (write_public s)"
| "step WriteSync s = snd (writeSync s)"
| "step (SetAndWrite key v) s = snd (setAndWrite key v s)"
| "step (SetAndWriteSync key v) s = snd (setAndWriteSync key v s)"
| "step ResetAndWrite s = snd (resetAndWrite s)"
| "step ResetAndWriteSync s = snd (resetAndWriteSync s)"
| "step (Settle i ok) s = settle i ok s"
| "step FsChange s = fold watch_callback (openWatchers s) s"
| "step (Advance d) s = advance d s"
| "step DisableFileWatcher s = snd (disableFileWatcher s)"
| "step (AddListener w) s = addListener w s"
| "step (ExternalEdit f) s = s\<lparr>fileOnDisk := f\<rparr>"
| "step (DiskWritable b) s = s\<lparr>diskWritable := b\<rparr>"
| "step InitSync s = snd (initSync s)"
| "step Init s = snd (init s)"

fun run :: "event list \<Rightarrow> store \<Rightarrow> store" where
  "run [] s = s"
| "run (e # es) s = run es (step e s)"

section \<open>An example store\<close>

text \<open>
  The schema of the README, \<open>{size: {default: 25, type: 'number', min: 10, max: 40}}\<close>,
  with a checker that answers as the validator library does for it, the default options,
  and a settings file holding \<open>{"size": 30}\<close>. For a field that is missing,
  \<open>undefined\<close> or \<open>null\<close> the library takes the schema default, which passes; it
  also writes that default into the object it checks, which a checker that is a function
  of the object does not do.
\<close>

definition example_schema :: schema where
  "example_schema = [(''size'', Descriptor (VNum 25))]"

definition example_check :: "obj \<Rightarrow> check_result" where
  "example_check ob =
     (case map_of ob ''size'' of
        None \<Rightarrow> CheckTrue
      | Some VUndefined \<Rightarrow> CheckTrue
      | Some VNull \<Rightarrow> CheckTrue
      | Some (VNum n) \<Rightarrow>
          if n < 10 then
            CheckErrors [ValidationError ''size''
              (Some ''The 'size' field must be greater than or equal to 10.'')]
          else if 40 < n then
            CheckErrors [ValidationError ''size''
              (Some ''The 'size' field must be less than or equal to 40.'')]
          else CheckTrue
      | Some other \<Rightarrow>
          CheckErrors [ValidationError ''size'' (Some ''The 'size' field must be a number.'')])"

definition default_options :: options where
  "default_options =
     \<lparr>validateFile = True, validate_option = True, mkdirOnStartup = True,
      defaultOnFailValidation = True, watchFile = False\<rparr>"

definition example_new :: store where
  "example_new = construct example_schema example_check default_options (Json [(''size'', VNum 30)])"

definition example_store :: store where
  "example_store = snd (initSync example_new)"

definition example_strict :: store where
  "example_strict =
     example_store\<lparr>options := (options example_store)\<lparr>defaultOnFailValidation := False\<rparr>\<rparr>"

section \<open>Notions used by the properties\<close>

text \<open>
  The state of saving: at most one file write is pending, a pending file write implies
  that the writing flag is set, and every call of \<open>fs.writeFile\<close> or
  \<open>fs.writeFileSync\<close> made so far was made with no other file write in flight.
\<close>

definition coalescing_inv :: "store \<Rightarrow> bool" where
  "coalescing_inv s =
     (length (pendingWrites s) \<le> 1 \<and> (pendingWrites s = [] \<or> isWritingFlag s) \<and>
      list_all (\<lambda>w. fst w = 0) (fsWrites s))"

text \<open>Two states that agree on everything the save protocol reads or writes.\<close>

definition same_io :: "store \<Rightarrow> store \<Rightarrow> bool" where
  "same_io s s' =
     (pendingWrites s' = pendingWrites s \<and> isWritingFlag s' = isWritingFlag s \<and>
      writeAgainFlag s' = writeAgainFlag s \<and> fsWrites s' = fsWrites s)"

text \<open>
  The events of a burst: the mutations and the save requests of the public interface.
\<close>

fun save_request :: "event \<Rightarrow> bool" where
  "save_request Write = True"
| "save_request WriteSync = True"
| "save_request ResetAndWrite = True"
| "save_request ResetAndWriteSync = True"
| "save_request e = False"

fun mutation :: "event \<Rightarrow> bool" where
  "mutation (Set key v) = True"
| "mutation (SetAll ob) = True"
| "mutation (Unset key) = True"
| "mutation Reset = True"
| "mutation e = False"

definition burst_event :: "event \<Rightarrow> bool" where
  "burst_event e = (mutation e \<or> save_request e)"

text \<open>Three times a changed setting and a save request.\<close>

definition example_burst :: "event list" where
  "example_burst =
     [Set (Key ''size'') (VNum 31), Write, Set (Key ''size'') (VNum 32), Write,
      Set (Key ''size'') (VNum 33), WriteSync]"

text \<open>Two states that agree on the pending timers and on the count of reconciliations.\<close>

definition same_watch :: "store \<Rightarrow> store \<Rightarrow> bool" where
  "same_watch s s' = (timers s' = timers s \<and> fileChangedCalls s' = fileChangedCalls s)"

text \<open>The example store with the \<open>watchFile\<close> option on.\<close>

definition example_watching :: store where
  "example_watching =
     snd (initSync (construct example_schema example_check (default_options\<lparr>watchFile := True\<rparr>)
                      (Json [(''size'', VNum 30)])))"

text \<open>The same store when the settings file does not parse.\<close>

definition example_unparsable :: store where
  "example_unparsable =
     snd (initSync (construct example_schema example_check (default_options\<lparr>watchFile := True\<rparr>)
                      Unparsable))"

section \<open>Reading a setting\<close>

text \<open>
  Claim C9. Before initialization has completed, \<open>get\<close> throws the error that asks to
  initialize first. On an initialized store and for a key name that is not empty, \<open>get\<close>
  returns the cached value when the cache has the key; the schema default of that same key
  when the cache lacks it and the schema declares it; and \<open>undefined\<close> when neither has
  it, whatever other keys the schema declares. (The empty key name is refused with a
  \<open>TypeError\<close> before any lookup.)
\<close>

theorem get_returns:
  "(\<not> hasInitialized s \<longrightarrow> get key s = Inl not_initialized) \<and>
   (hasInitialized s \<and> key \<noteq> [] \<and> map_of (cache s) key = Some v \<longrightarrow> get key s = Inr v) \<and>
   (hasInitialized s \<and> key \<noteq> [] \<and> map_of (cache s) key = None \<and> map_of (schema s) key = Some d
      \<longrightarrow> get key s = Inr (schema_default d)) \<and>
   (hasInitialized s \<and> key \<noteq> [] \<and> map_of (cache s) key = None \<and> map_of (schema s) key = None
      \<longrightarrow> get key s = Inr VUndefined)"
  by (simp add: get_def hasOwnProperty_def getprop_def)

theorem get_returns_witness:
  "\<not> hasInitialized example_new \<and> get ''size'' example_new = Inl not_initialized \<and>
   hasInitialized example_store \<and> ''size'' \<noteq> [] \<and>
   map_of (cache example_store) ''size'' = Some (VNum 30) \<and>
   get ''size'' example_store = Inr (VNum 30) \<and>
   map_of (cache (step (Unset ''size'') example_store)) ''size'' = None \<and>
   map_of (schema (step (Unset ''size'') example_store)) ''size'' = Some (Descriptor (VNum 25)) \<and>
   get ''size'' (step (Unset ''size'') example_store) = Inr (VNum 25) \<and>
   ''unknownKey'' \<noteq> [] \<and>
   map_of (cache example_store) ''unknownKey'' = None \<and>
   map_of (schema example_store) ''unknownKey'' = None \<and>
   get ''unknownKey'' example_store = Inr VUndefined"
proof -
  have a: "\<not> hasInitialized example_new" by code_simp
  have b: "hasInitialized example_store" by code_simp
  have c: "map_of (cache example_store) ''size'' = Some (VNum 30)" by code_simp
  have u: "hasInitialized (step (Unset ''size'') example_store)" by code_simp
  have d: "map_of (cache (step (Unset ''size'') example_store)) ''size'' = None" by code_simp
  have e: "map_of (schema (step (Unset ''size'') example_store)) ''size'' = Some (Descriptor (VNum 25))"
    by code_simp
  have f: "map_of (cache example_store) ''unknownKey'' = None" by code_simp
  have g: "map_of (schema example_store) ''unknownKey'' = None" by code_simp
  show ?thesis
    using a b c d e f g u
      get_returns [of example_new "''size''"]
      get_returns [of example_store "''size''" "VNum 30"]
      get_returns [of "step (Unset ''size'') example_store" "''size''" _ "Descriptor (VNum 25)"]
      get_returns [of example_store "''unknownKey''"]
    by simp
qed

section \<open>Setting a value that fails validation\<close>

text \<open>
  Claim C3, as stated, at the example store: validation and the default-on-failure policy
  are on, the cache has \<open>size\<close>, and 55 fails validation. The result of \<open>set\<close> carries
  the note that the default was applied, and its status is \<open>true\<close>, not \<open>false\<close>.
\<close>

theorem set_invalid_status_counterexample:
  "validate_option (options example_store) \<and> defaultOnFailValidation (options example_store) \<and>
   hasOwnProperty (cache example_store) ''size'' \<and>
   validate ''size'' (VNum 55) example_store =
     Inr \<lparr>status = False, default_value = VNum 25,
          errors = ErrList [ErrString ''The 'size' field must be less than or equal to 40.'']\<rparr> \<and>
   fst (set_public (Key ''size'') (VNum 55) example_store) =
     Inr (Returned \<lparr>status = True, default_value = VNum 25,
                    errors = ErrString ''Default setting was applied''\<rparr>)"
  by code_simp

text \<open>
  Claim C3, amended. On an initialized store with validation enabled, let \<open>key\<close> be a
  schema key that the cache holds and whose entry in the Default Table is its schema
  default, and let \<open>v\<close> be a defined value that the checker rejects. With the
  default-on-failure policy enabled, \<open>set key v\<close> stores the schema default of \<open>key\<close>
  (so \<open>get key\<close> returns it) and returns status \<open>true\<close> with the errors field
  \<open>Default setting was applied\<close>. With the policy disabled, \<open>set key v\<close> changes
  nothing at all and returns status \<open>false\<close> with the messages of the checker's errors.
\<close>

theorem set_invalid_value:
  assumes "hasInitialized s" and "key \<noteq> []" and "v \<noteq> VUndefined"
    and "validate_option (options s)"
    and "map_of (cache s) key = Some old"
    and "map_of (schema s) key = Some d"
    and "map_of (heap s (defaults s)) key = Some (schema_default d)"
    and "check s [(key, v)] = CheckErrors es"
  shows "(defaultOnFailValidation (options s) \<longrightarrow>
            fst (set_public (Key key) v s) =
              Inr (Returned \<lparr>status = True, default_value = schema_default d,
                             errors = ErrString ''Default setting was applied''\<rparr>) \<and>
            map_of (cache (snd (set_public (Key key) v s))) key = Some (schema_default d) \<and>
            get key (snd (set_public (Key key) v s)) = Inr (schema_default d)) \<and>
         (\<not> defaultOnFailValidation (options s) \<longrightarrow>
            set_public (Key key) v s =
              (Inr (Returned \<lparr>status = False, default_value = schema_default d,
                              errors = ErrList (map ErrString (errorsList es))\<rparr>), s))"
  using assms
  by (simp add: set_public_def set_private_def validate_def getDefault_def
      fastValidateSettings_def setCachedSettingsKey_def sendIPCUpdateSettings_def cache_def
      hasOwnProperty_def getprop_def assign_def get_def update_conv' strict_eq_def Let_def)

theorem set_invalid_value_witness:
  "hasInitialized example_store \<and> ''size'' \<noteq> [] \<and> VNum 55 \<noteq> VUndefined \<and>
   validate_option (options example_store) \<and>
   map_of (cache example_store) ''size'' = Some (VNum 30) \<and>
   map_of (schema example_store) ''size'' = Some (Descriptor (VNum 25)) \<and>
   map_of (heap example_store (defaults example_store)) ''size'' = Some (VNum 25) \<and>
   check example_store [(''size'', VNum 55)] =
     CheckErrors [ValidationError ''size''
       (Some ''The 'size' field must be less than or equal to 40.'')] \<and>
   defaultOnFailValidation (options example_store) \<and>
   fst (set_public (Key ''size'') (VNum 55) example_store) =
     Inr (Returned \<lparr>status = True, default_value = VNum 25,
                    errors = ErrString ''Default setting was applied''\<rparr>) \<and>
   get ''size'' (snd (set_public (Key ''size'') (VNum 55) example_store)) = Inr (VNum 25) \<and>
   \<not> defaultOnFailValidation (options example_strict) \<and>
   set_public (Key ''size'') (VNum 55) example_strict =
     (Inr (Returned \<lparr>status = False, default_value = VNum 25,
                     errors = ErrList [ErrString ''The 'size' field must be less than or equal to 40.'']\<rparr>),
      example_strict)"
proof -
  let ?es = "[ValidationError ''size'' (Some ''The 'size' field must be less than or equal to 40.'')]"
  have i: "hasInitialized example_store" by code_simp
  have o: "validate_option (options example_store)" by code_simp
  have c: "map_of (cache example_store) ''size'' = Some (VNum 30)" by code_simp
  have d: "map_of (schema example_store) ''size'' = Some (Descriptor (VNum 25))" by code_simp
  have t: "map_of (heap example_store (defaults example_store)) ''size''
             = Some (schema_default (Descriptor (VNum 25)))" by code_simp
  have k: "check example_store [(''size'', VNum 55)] = CheckErrors ?es" by code_simp
  have p: "defaultOnFailValidation (options example_store)" by code_simp
  have i': "hasInitialized example_strict" by code_simp
  have o': "validate_option (options example_strict)" by code_simp
  have c': "map_of (cache example_strict) ''size'' = Some (VNum 30)" by code_simp
  have d': "map_of (schema example_strict) ''size'' = Some (Descriptor (VNum 25))" by code_simp
  have t': "map_of (heap example_strict (defaults example_strict)) ''size''
             = Some (schema_default (Descriptor (VNum 25)))" by code_simp
  have k': "check example_strict [(''size'', VNum 55)] = CheckErrors ?es" by code_simp
  have p': "\<not> defaultOnFailValidation (options example_strict)" by code_simp
  have key: "''size'' \<noteq> []" and v: "VNum 55 \<noteq> VUndefined" by simp_all
  show ?thesis
    using set_invalid_value [OF i key v o c d t k] set_invalid_value [OF i' key v o' c' d' t' k']
      i o c d t k p p'
    by (simp add: errorsList_def)
qed

section \<open>Setting a key the cache does not hold\<close>

text \<open>
  Claim C4 at a reachable state where the key is absent from the cache: after
  \<open>unset('size')\<close> on the example store, 30 is valid for \<open>size\<close>, \<open>set('size', 30)\<close>
  returns status \<open>true\<close>, and \<open>get('size')\<close> then returns the default 25, not 30: the
  branch of \<open>_set\<close> for a key the cache lacks stores the default and drops the value.
\<close>

theorem set_after_unset_stores_default:
  "hasInitialized (step (Unset ''size'') example_store) \<and>
   \<not> hasOwnProperty (cache (step (Unset ''size'') example_store)) ''size'' \<and>
   validate ''size'' (VNum 30) (step (Unset ''size'') example_store) =
     Inr \<lparr>status = True, default_value = VNum 25, errors = ErrFalse\<rparr> \<and>
   fst (set_public (Key ''size'') (VNum 30) (step (Unset ''size'') example_store)) =
     Inr (Returned \<lparr>status = True, default_value = VNum 25, errors = ErrFalse\<rparr>) \<and>
   get ''size'' (run [Unset ''size'', Set (Key ''size'') (VNum 30)] example_store) = Inr (VNum 25)"
  by code_simp

section \<open>Notifying the listeners\<close>

text \<open>
  Claim C5 at \<open>unset\<close>: with a renderer registered as listener, \<open>unset('size')\<close> removes
  the key from the cache and sends no message, where a \<open>set\<close> that changes the value
  sends the new cache to the listener.
\<close>

theorem unset_sends_nothing:
  "windowListeners (step (AddListener 7) example_store) = [None, Some 7] \<and>
   cache (step (AddListener 7) example_store) = [(''size'', VNum 30)] \<and>
   sent (step (AddListener 7) example_store) = [] \<and>
   fst (unset ''size'' (step (AddListener 7) example_store)) = Inr True \<and>
   cache (run [AddListener 7, Unset ''size''] example_store) = [] \<and>
   sent (run [AddListener 7, Unset ''size''] example_store) = [] \<and>
   sent (run [AddListener 7, Set (Key ''size'') (VNum 31)] example_store) =
     [(7, [(''size'', VNum 31)])]"
  by code_simp

section \<open>The Default Table\<close>

text \<open>
  Claim C7 at \<open>reset\<close> followed by \<open>set\<close>: \<open>reset\<close> makes the cache the defaults
  object itself, so the \<open>set\<close> that follows writes into it. \<open>getDefaults\<close> then returns
  30 for \<open>size\<close>, whose schema default is 25, and a later \<open>set\<close> of an invalid value
  recovers to 30.
\<close>

theorem reset_then_set_changes_defaults:
  "retreiveDefaults (schema example_store) = [(''size'', VNum 25)] \<and>
   getDefaults example_store = [(''size'', VNum 25)] \<and>
   cachedSettings (step Reset example_store) = defaults (step Reset example_store) \<and>
   getDefaults (run [Reset, Set (Key ''size'') (VNum 30)] example_store) = [(''size'', VNum 30)] \<and>
   get ''size'' (run [Reset, Set (Key ''size'') (VNum 30), Set (Key ''size'') (VNum 55)] example_store)
     = Inr (VNum 30)"
  by code_simp

section \<open>A file write that fails\<close>

text \<open>
  Claim C8 at a disk that cannot be written: \<open>writeSync\<close> returns the error as a string
  and leaves \<open>_isWritingFlag\<close> set. Once the disk can be written again, a changed
  setting and another \<open>writeSync\<close> return \<open>true\<close> and write nothing: the file still
  holds 30, and only the one failed call of \<open>fs.writeFileSync\<close> was ever made. The same
  for \<open>write\<close> whose file write is rejected.
\<close>

theorem failed_write_leaves_flag_set:
  "\<not> isWritingFlag example_store \<and>
   fst (writeSync (step (DiskWritable False) example_store)) =
     WriteFailed ''Error: Error: EACCES: permission denied'' \<and>
   isWritingFlag (run [DiskWritable False, WriteSync] example_store) \<and>
   fst (writeSync (run [DiskWritable False, WriteSync, DiskWritable True,
                        Set (Key ''size'') (VNum 31)] example_store)) = WriteTrue \<and>
   cache (run [DiskWritable False, WriteSync, DiskWritable True,
               Set (Key ''size'') (VNum 31), WriteSync] example_store) = [(''size'', VNum 31)] \<and>
   fileOnDisk (run [DiskWritable False, WriteSync, DiskWritable True,
                    Set (Key ''size'') (VNum 31), WriteSync] example_store) = Json [(''size'', VNum 30)] \<and>
   length (fsWrites (run [DiskWritable False, WriteSync, DiskWritable True,
                          Set (Key ''size'') (VNum 31), WriteSync] example_store)) = 1 \<and>
   isWritingFlag (run [Write, Settle 0 False] example_store) \<and>
   pendingWrites (run [Write, Settle 0 False] example_store) = []"
  by code_simp

section \<open>Operations before initialization\<close>

text \<open>
  Claim C10 at the constructed store, before \<open>init\<close>: \<open>set\<close> and \<open>get\<close> throw, but
  \<open>unset\<close> returns \<open>false\<close>, \<open>reset\<close> fills the cache with the defaults,
  \<open>writeSync\<close> returns \<open>true\<close> after writing the empty cache over the settings file, and
  \<open>write\<close> starts a file write.
\<close>

theorem operations_before_init:
  "\<not> hasInitialized example_new \<and>
   fst (set_public (Key ''size'') (VNum 30) example_new) = Inl not_initialized \<and>
   get ''size'' example_new = Inl not_initialized \<and>
   fst (unset ''size'' example_new) = Inr False \<and>
   cache example_new = [] \<and>
   cache (reset example_new) = [(''size'', VNum 25)] \<and>
   fileOnDisk example_new = Json [(''size'', VNum 30)] \<and>
   fst (writeSync example_new) = WriteTrue \<and>
   fileOnDisk (snd (writeSync example_new)) = Json [] \<and>
   fst (write_public example_new) = None \<and>
   pendingWrites (snd (write_public example_new)) = [(1, [], CReturn)]"
  by code_simp

section \<open>The save issued again\<close>

text \<open>
  Claim C2 at a \<open>reset\<close> during a write in flight: \<open>write\<close> starts a file write of
  the cache object holding 30; \<open>reset\<close> replaces the cache by the defaults object and the
  second \<open>write\<close> sets the write-again flag. When the first file write completes, the save
  is issued again with the object the first one was given: it serializes 30 while the
  cache holds 25, and once it completes the file holds 30 with nothing left to write.
\<close>

theorem reissued_write_uses_old_object:
  "pendingWrites (run [Write] example_store) = [(2, [(''size'', VNum 30)], CReturn)] \<and>
   writeAgainFlag (run [Write, Reset, Write] example_store) \<and>
   cache (run [Write, Reset, Write, Settle 0 True] example_store) = [(''size'', VNum 25)] \<and>
   pendingWrites (run [Write, Reset, Write, Settle 0 True] example_store)
     = [(2, [(''size'', VNum 30)], CReturn)] \<and>
   \<not> writeAgainFlag (run [Write, Reset, Write, Settle 0 True] example_store) \<and>
   cache (run [Write, Reset, Write, Settle 0 True, Settle 0 True] example_store)
     = [(''size'', VNum 25)] \<and>
   fileOnDisk (run [Write, Reset, Write, Settle 0 True, Settle 0 True] example_store)
     = Json [(''size'', VNum 30)] \<and>
   pendingWrites (run [Write, Reset, Write, Settle 0 True, Settle 0 True] example_store) = [] \<and>
   \<not> isWritingFlag (run [Write, Reset, Write, Settle 0 True, Settle 0 True] example_store)"
  by code_simp

section \<open>Write coalescing\<close>

lemma same_io_refl: "same_io s s"
  by (simp add: same_io_def)

lemma same_io_trans: "same_io s s' \<Longrightarrow> same_io s' s'' \<Longrightarrow> same_io s s''"
  by (simp add: same_io_def)

lemma same_io_sendIPCUpdateSettings: "same_io s (sendIPCUpdateSettings s)"
  by (simp add: same_io_def sendIPCUpdateSettings_def)

lemma same_io_setCachedSettings: "same_io s (setCachedSettings a s)"
  by (simp add: same_io_def setCachedSettings_def sendIPCUpdateSettings_def Let_def)

lemma same_io_setCachedSettingsKey: "same_io s (setCachedSettingsKey key v s)"
  by (simp add: same_io_def setCachedSettingsKey_def sendIPCUpdateSettings_def Let_def)

lemma same_io_set_private: "same_io s (snd (set_private key v s))"
  using same_io_setCachedSettingsKey [of s]
  by (auto simp: set_private_def Let_def same_io_refl split: sum.splits)

lemma same_io_set_private_eq: "set_private key v s = (r, s') \<Longrightarrow> same_io s s'"
  using same_io_set_private [of s key v] by simp

lemma same_io_set_each: "same_io s (snd (set_each entries st errs s))"
proof (induction entries arbitrary: st errs s)
  case Nil
  show ?case by (simp add: same_io_refl)
next
  case (Cons e entries)
  obtain k v where e: "e = (k, v)" by (cases e)
  obtain r s' where r: "set_private k v s = (r, s')" by (cases "set_private k v s")
  have "same_io s s'" using same_io_set_private [of s k v] r by simp
  then show ?case
    using Cons.IH [where s = s'] e r
    by (auto split: sum.splits intro: same_io_trans simp: same_io_refl)
qed

lemma same_io_set_each_eq: "set_each entries st errs s = (r, s') \<Longrightarrow> same_io s s'"
  using same_io_set_each [of s entries st errs] by simp

lemma same_io_set_public: "same_io s (snd (set_public key v s))"
  by (auto simp: set_public_def same_io_refl split: set_key.splits prod.splits sum.splits
      dest: same_io_set_private_eq same_io_set_each_eq)

lemma same_io_alloc: "same_io s (snd (alloc ob s))"
  by (simp add: same_io_def alloc_def)

lemma same_io_setAll: "same_io s (snd (setAll data s))"
  using same_io_setCachedSettings [of s]
  by (auto simp: setAll_def same_io_refl split: check_result.splits list.splits)

lemma same_io_unset: "same_io s (snd (unset key s))"
  by (simp add: unset_def same_io_def)

lemma same_io_reset: "same_io s (reset s)"
  by (simp add: reset_def same_io_setCachedSettings)

lemma same_io_mutation: "mutation e \<Longrightarrow> same_io s (step e s)"
proof (cases e)
  case (SetAll ob)
  obtain a s' where a: "alloc ob s = (a, s')" by (cases "alloc ob s")
  have "same_io s s'" using same_io_alloc [of s ob] a by simp
  then show ?thesis
    using SetAll a same_io_setAll [of s' a] by (auto intro: same_io_trans)
qed (simp_all add: same_io_set_public same_io_unset same_io_reset)

lemma same_io_inv: "same_io s s' \<Longrightarrow> coalescing_inv s \<Longrightarrow> coalescing_inv s'"
  by (simp add: same_io_def coalescing_inv_def)

lemma same_io_closeWatcher: "same_io s (closeWatcher s)"
  by (simp add: same_io_def closeWatcher_def split: option.splits)

lemma same_io_watchFile_private: "same_io s (watchFile_private s)"
  by (simp add: same_io_def watchFile_private_def)

lemma same_io_initFinish: "same_io s (initFinish s)"
  by (simp add: same_io_def initFinish_def watchFile_private_def)

lemma same_io_applyDefaults: "same_io s (snd (applyDefaults es s))"
proof (induction es arbitrary: s)
  case Nil
  show ?case by (simp add: same_io_refl)
next
  case (Cons e es)
  show ?case
  proof (cases "map_of (schema s) (field e)")
    case None
    then show ?thesis by (simp add: same_io_refl)
  next
    case (Some d)
    let ?s' = "s\<lparr>heap := (heap s)(cachedSettings s := assign (cache s) (field e) (schema_default d))\<rparr>"
    have "same_io s ?s'" by (simp add: same_io_def)
    then show ?thesis using Some Cons.IH [of ?s'] by (auto intro: same_io_trans)
  qed
qed

lemma writeJSONFileSync_busy:
  "isWritingFlag s \<Longrightarrow> writeJSONFileSync data s = (Inr (), s\<lparr>writeAgainFlag := True\<rparr>)"
  by (simp add: writeJSONFileSync.simps)

lemma writeJSONFile_busy:
  "isWritingFlag s \<Longrightarrow> writeJSONFile data k s = (True, s\<lparr>writeAgainFlag := True\<rparr>)"
  by (simp add: writeJSONFile_def)

lemma inv_writeJSONFileSync:
  "coalescing_inv s \<Longrightarrow> coalescing_inv (snd (writeJSONFileSync data s))"
proof (induction data s rule: writeJSONFileSync.induct)
  case (1 data s)
  then show ?case
    by (subst writeJSONFileSync.simps)
       (auto simp: Let_def coalescing_inv_def closeWatcher_def watchFile_private_def
             split: option.splits)
qed

lemma inv_writeJSONFile:
  "coalescing_inv s \<Longrightarrow> coalescing_inv (snd (writeJSONFile data k s))"
  by (auto simp: writeJSONFile_def Let_def coalescing_inv_def closeWatcher_def
           split: option.splits)

lemma inv_writeJSONFile_resume:
  "coalescing_inv (s\<lparr>isWritingFlag := False\<rparr>) \<Longrightarrow> coalescing_inv (writeJSONFile_resume data s)"
  by (auto simp: writeJSONFile_resume_def writeJSONFile_def Let_def coalescing_inv_def
           closeWatcher_def watchFile_private_def split: option.splits)

lemma inv_settle: "coalescing_inv s \<Longrightarrow> coalescing_inv (settle i ok s)"
proof (cases "i < length (pendingWrites s)")
  case False
  assume "coalescing_inv s"
  then show ?thesis using False by (simp add: settle_def)
next
  case True
  assume inv: "coalescing_inv s"
  obtain data dataString k where p: "pendingWrites s ! i = (data, dataString, k)"
    by (cases "pendingWrites s ! i")
  from inv True have i: "i = 0" and one: "length (pendingWrites s) = 1"
    by (simp_all add: coalescing_inv_def)
  let ?s1 = "s\<lparr>pendingWrites := take i (pendingWrites s) @ drop (Suc i) (pendingWrites s)\<rparr>"
  have inv1: "coalescing_inv ?s1" using inv i one by (simp add: coalescing_inv_def)
  have "coalescing_inv (?s1\<lparr>fileOnDisk := Json dataString, isWritingFlag := False\<rparr>)"
    using inv i one by (simp add: coalescing_inv_def)
  then have "coalescing_inv (writeJSONFile_resume data (?s1\<lparr>fileOnDisk := Json dataString\<rparr>))"
    by (intro inv_writeJSONFile_resume) simp
  then have "coalescing_inv
      (resume_continuation k (writeJSONFile_resume data (?s1\<lparr>fileOnDisk := Json dataString\<rparr>)))"
    by (cases k) (auto simp: resume_continuation_def intro: same_io_inv [OF same_io_initFinish])
  then show ?thesis using True p inv1 by (simp add: settle_def Let_def)
qed

lemma inv_writeSync: "coalescing_inv s \<Longrightarrow> coalescing_inv (snd (writeSync s))"
  using inv_writeJSONFileSync [of s "cachedSettings s"]
  by (auto simp: writeSync_def split: prod.splits sum.splits)

lemma inv_write_public: "coalescing_inv s \<Longrightarrow> coalescing_inv (snd (write_public s))"
  using inv_writeJSONFile [of s "cachedSettings s" CReturn]
  by (auto simp: write_public_def split: prod.splits bool.splits)

lemma inv_set_public: "coalescing_inv s \<Longrightarrow> coalescing_inv (snd (set_public key v s))"
  by (rule same_io_inv [OF same_io_set_public])

lemma inv_fileChanged: "coalescing_inv s \<Longrightarrow> coalescing_inv (fileChanged s)"
proof -
  assume inv: "coalescing_inv s"
  let ?s = "s\<lparr>fileChangedCalls := Suc (fileChangedCalls s)\<rparr>"
  have a: "coalescing_inv ?s" using inv by (simp add: coalescing_inv_def)
  show ?thesis
  proof (cases "fileOnDisk s")
    case Missing
    then show ?thesis using a by (simp add: fileChanged_def)
  next
    case Unparsable
    then show ?thesis using a by (simp add: fileChanged_def)
  next
    case (Json doc)
    obtain p s1 where al: "alloc doc ?s = (p, s1)" by (cases "alloc doc ?s")
    have b: "coalescing_inv s1"
      using same_io_inv [OF same_io_alloc [of ?s doc] a] al by simp
    have c: "coalescing_inv (setCachedSettings p s1)"
      by (rule same_io_inv [OF same_io_setCachedSettings b])
    have d: "coalescing_inv s2" if "applyDefaults es s1 = (r, s2)" for es r s2
      using same_io_inv [OF same_io_applyDefaults [of s1 es] b] that by simp
    have e: "coalescing_inv (snd (writeJSONFileSync (cachedSettings s2) s2))"
      if "applyDefaults es s1 = (r, s2)" for es r s2
      using d [OF that] inv_writeJSONFileSync [of s2] by simp
    show ?thesis
      using Json al b c d e
      by (auto simp: fileChanged_def Let_def split: check_result.splits prod.splits sum.splits)
  qed
qed

lemma same_io_watch_callback: "same_io s (watch_callback w s)"
  by (simp add: same_io_def watch_callback_def)

lemma inv_fold_watch_callback:
  "coalescing_inv s \<Longrightarrow> coalescing_inv (fold watch_callback ws s)"
proof (induction ws arbitrary: s)
  case Nil
  then show ?case by simp
next
  case (Cons w ws)
  have "coalescing_inv (watch_callback w s)"
    by (rule same_io_inv [OF same_io_watch_callback Cons.prems])
  then show ?case using Cons.IH by simp
qed

lemma inv_timer_callback: "coalescing_inv s \<Longrightarrow> coalescing_inv (timer_callback t s)"
proof -
  assume "coalescing_inv s"
  then have "coalescing_inv (s\<lparr>timers := remove1 t (timers s)\<rparr>)"
    by (simp add: coalescing_inv_def)
  then show ?thesis unfolding timer_callback_def by (rule inv_fileChanged)
qed

lemma inv_fold_timer_callback:
  "coalescing_inv s \<Longrightarrow> coalescing_inv (fold timer_callback ts s)"
  by (induction ts arbitrary: s) (simp_all add: inv_timer_callback)

lemma inv_advance: "coalescing_inv s \<Longrightarrow> coalescing_inv (advance d s)"
proof -
  assume "coalescing_inv s"
  then have "coalescing_inv (s\<lparr>now := now s + d\<rparr>)" by (simp add: coalescing_inv_def)
  then show ?thesis unfolding advance_def Let_def by (rule inv_fold_timer_callback)
qed

lemma inv_disableFileWatcher:
  "coalescing_inv s \<Longrightarrow> coalescing_inv (snd (disableFileWatcher s))"
  by (auto simp: disableFileWatcher_def coalescing_inv_def closeWatcher_def split: option.splits)

lemma inv_setAndWriteSync:
  "coalescing_inv s \<Longrightarrow> coalescing_inv (snd (setAndWriteSync key v s))"
proof -
  assume inv: "coalescing_inv s"
  obtain r s' where r: "set_public key v s = (r, s')" by (cases "set_public key v s")
  have s': "coalescing_inv s'" using inv_set_public [OF inv, of key v] r by simp
  obtain w s'' where w: "writeSync s' = (w, s'')" by (cases "writeSync s'")
  have "coalescing_inv s''" using inv_writeSync [OF s'] w by simp
  then show ?thesis
    using r s' w
    by (auto simp: setAndWriteSync_def split: sum.splits set_return.splits write_return.splits)
qed

lemma inv_setAndWrite:
  "coalescing_inv s \<Longrightarrow> coalescing_inv (snd (setAndWrite key v s))"
proof -
  assume inv: "coalescing_inv s"
  obtain r s' where r: "set_public key v s = (r, s')" by (cases "set_public key v s")
  have s': "coalescing_inv s'" using inv_set_public [OF inv, of key v] r by simp
  obtain w s'' where w: "write_public s' = (w, s'')" by (cases "write_public s'")
  have "coalescing_inv s''" using inv_write_public [OF s'] w by simp
  then show ?thesis
    using r s' w
    by (auto simp: setAndWrite_def split: sum.splits set_return.splits option.splits)
qed

lemma inv_validateSettingsSync:
  "coalescing_inv s \<Longrightarrow> coalescing_inv (snd (validateSettingsSync a s))"
proof -
  assume inv: "coalescing_inv s"
  have d: "coalescing_inv s2" if "applyDefaults es s = (r, s2)" for es r s2
    using same_io_inv [OF same_io_applyDefaults [of s es] inv] that by simp
  have e: "coalescing_inv (snd (writeJSONFileSync (cachedSettings s2) s2))"
    if "applyDefaults es s = (r, s2)" for es r s2
    using d [OF that] inv_writeJSONFileSync [of s2] by simp
  show ?thesis
    using inv d e
    by (auto simp: validateSettingsSync_def
             split: check_result.splits prod.splits sum.splits list.splits)
qed

lemma inv_validateSettings:
  "coalescing_inv s \<Longrightarrow> coalescing_inv (snd (validateSettings a s))"
proof -
  assume inv: "coalescing_inv s"
  have d: "coalescing_inv s2" if "applyDefaults es s = (r, s2)" for es r s2
    using same_io_inv [OF same_io_applyDefaults [of s es] inv] that by simp
  have e: "coalescing_inv s3"
    if "applyDefaults es s = (r, s2)" and "writeJSONFile (cachedSettings s2) CInit s2 = (b, s3)"
    for es r s2 b s3
    using d [OF that(1)] inv_writeJSONFile [of s2 "cachedSettings s2" CInit] that(2) by simp
  show ?thesis
    using inv d e
    by (auto simp: validateSettings_def
             split: check_result.splits prod.splits sum.splits list.splits)
qed

lemma inv_initFinish: "coalescing_inv s \<Longrightarrow> coalescing_inv (initFinish s)"
  by (rule same_io_inv [OF same_io_initFinish])

lemma inv_initSync: "coalescing_inv s \<Longrightarrow> coalescing_inv (snd (initSync s))"
proof -
  assume inv: "coalescing_inv s"
  show ?thesis
  proof (cases "fileOnDisk s")
    case Missing
    then show ?thesis using inv by (simp add: initSync_def)
  next
    case Unparsable
    let ?s1 = "setCachedSettings (defaults s) s"
    have a: "coalescing_inv ?s1" by (rule same_io_inv [OF same_io_setCachedSettings inv])
    obtain r s2 where w: "writeJSONFileSync (cachedSettings ?s1) ?s1 = (r, s2)"
      by (cases "writeJSONFileSync (cachedSettings ?s1) ?s1")
    have "coalescing_inv s2" using inv_writeJSONFileSync [OF a, of "cachedSettings ?s1"] w by simp
    then show ?thesis
      using Unparsable inv w by (auto simp: initSync_def Let_def inv_initFinish split: sum.splits)
  next
    case (Json doc)
    obtain p s0 where al: "alloc doc s = (p, s0)" by (cases "alloc doc s")
    have b: "coalescing_inv s0" using same_io_inv [OF same_io_alloc [of s doc] inv] al by simp
    let ?s1 = "setCachedSettings p s0"
    have c: "coalescing_inv ?s1" by (rule same_io_inv [OF same_io_setCachedSettings b])
    obtain r s2 where v: "validateSettingsSync (cachedSettings ?s1) ?s1 = (r, s2)"
      by (cases "validateSettingsSync (cachedSettings ?s1) ?s1")
    have "coalescing_inv s2" using inv_validateSettingsSync [OF c, of "cachedSettings ?s1"] v by simp
    then show ?thesis
      using Json inv al c v
      by (auto simp: initSync_def Let_def inv_initFinish split: sum.splits)
  qed
qed

lemma inv_init: "coalescing_inv s \<Longrightarrow> coalescing_inv (snd (init s))"
proof -
  assume inv: "coalescing_inv s"
  show ?thesis
  proof (cases "fileOnDisk s")
    case Missing
    then show ?thesis using inv by (simp add: init_def)
  next
    case Unparsable
    let ?s1 = "setCachedSettings (defaults s) s"
    have a: "coalescing_inv ?s1" by (rule same_io_inv [OF same_io_setCachedSettings inv])
    obtain r s2 where w: "writeJSONFile (cachedSettings ?s1) CInit ?s1 = (r, s2)"
      by (cases "writeJSONFile (cachedSettings ?s1) CInit ?s1")
    have "coalescing_inv s2" using inv_writeJSONFile [OF a, of "cachedSettings ?s1" CInit] w by simp
    then show ?thesis
      using Unparsable inv w by (auto simp: init_def Let_def inv_initFinish split: bool.splits)
  next
    case (Json doc)
    obtain p s0 where al: "alloc doc s = (p, s0)" by (cases "alloc doc s")
    have b: "coalescing_inv s0" using same_io_inv [OF same_io_alloc [of s doc] inv] al by simp
    let ?s1 = "setCachedSettings p s0"
    have c: "coalescing_inv ?s1" by (rule same_io_inv [OF same_io_setCachedSettings b])
    obtain r s2 where v: "validateSettings (cachedSettings ?s1) ?s1 = (r, s2)"
      by (cases "validateSettings (cachedSettings ?s1) ?s1")
    have "coalescing_inv s2" using inv_validateSettings [OF c, of "cachedSettings ?s1"] v by simp
    then show ?thesis
      using Json inv al c v
      by (auto simp: init_def Let_def inv_initFinish split: sum.splits bool.splits)
  qed
qed

lemma inv_step: "coalescing_inv s \<Longrightarrow> coalescing_inv (step e s)"
proof (cases e)
  case (SetAll ob)
  assume inv: "coalescing_inv s"
  have "same_io s (step (SetAll ob) s)" by (rule same_io_mutation) simp
  then show ?thesis using SetAll inv by (auto intro: same_io_inv)
next
  case (ExternalEdit f)
  assume "coalescing_inv s"
  then show ?thesis using ExternalEdit by (simp add: coalescing_inv_def)
next
  case (DiskWritable b)
  assume "coalescing_inv s"
  then show ?thesis using DiskWritable by (simp add: coalescing_inv_def)
next
  case (AddListener w)
  assume "coalescing_inv s"
  then show ?thesis using AddListener by (simp add: coalescing_inv_def addListener_def)
qed (simp_all add: inv_set_public same_io_inv [OF same_io_unset] same_io_inv [OF same_io_reset]
      inv_write_public inv_writeSync inv_setAndWrite inv_setAndWriteSync resetAndWrite_def
      resetAndWriteSync_def inv_settle inv_fold_watch_callback inv_advance
      inv_disableFileWatcher inv_initSync inv_init)

lemma inv_run: "coalescing_inv s \<Longrightarrow> coalescing_inv (run evs s)"
  by (induction evs arbitrary: s) (simp_all add: inv_step)

lemma inv_construct: "coalescing_inv (construct sch chk opts f)"
  by (simp add: coalescing_inv_def construct_def)

lemma step_Write_busy: "isWritingFlag s \<Longrightarrow> step Write s = s\<lparr>writeAgainFlag := True\<rparr>"
  by (simp add: write_public_def writeJSONFile_busy)

lemma step_WriteSync_busy: "isWritingFlag s \<Longrightarrow> step WriteSync s = s\<lparr>writeAgainFlag := True\<rparr>"
  by (simp add: writeSync_def writeJSONFileSync_busy)

lemma step_burst_event:
  assumes "isWritingFlag s" and "burst_event e"
  shows "pendingWrites (step e s) = pendingWrites s \<and> fsWrites (step e s) = fsWrites s \<and>
         isWritingFlag (step e s) \<and>
         writeAgainFlag (step e s) = (writeAgainFlag s \<or> save_request e)"
proof (cases "mutation e")
  case True
  then have "\<not> save_request e" by (cases e) simp_all
  then show ?thesis using same_io_mutation [OF True, of s] assms(1) by (simp add: same_io_def)
next
  case False
  have r: "same_io s (reset s)" by (rule same_io_reset)
  then have b: "isWritingFlag (reset s)" using assms(1) by (simp add: same_io_def)
  from False assms(2) have "save_request e" by (simp add: burst_event_def)
  then show ?thesis
    using assms(1) r b
    by (cases e)
       (simp_all add: step_Write_busy [simplified] step_WriteSync_busy [simplified]
          resetAndWrite_def resetAndWriteSync_def write_public_def writeSync_def
          writeJSONFile_busy writeJSONFileSync_busy same_io_def)
qed

lemma run_burst:
  assumes "isWritingFlag s" and "list_all burst_event evs"
  shows "pendingWrites (run evs s) = pendingWrites s \<and> fsWrites (run evs s) = fsWrites s \<and>
         isWritingFlag (run evs s) \<and>
         writeAgainFlag (run evs s) = (writeAgainFlag s \<or> list_ex save_request evs)"
  using assms
proof (induction evs arbitrary: s)
  case Nil
  then show ?case by simp
next
  case (Cons e evs)
  from Cons.prems have e: "burst_event e" and evs: "list_all burst_event evs" by simp_all
  note st = step_burst_event [OF Cons.prems(1) e]
  from st have busy: "isWritingFlag (step e s)" by simp
  show ?case using Cons.IH [OF busy evs] st by auto
qed

lemma write_starts:
  assumes "\<not> isWritingFlag s"
  shows "fsWrites (step Write s) = fsWrites s @ [(length (pendingWrites s), stringify (cache s))] \<and>
         pendingWrites (step Write s) = pendingWrites s @ [(cachedSettings s, stringify (cache s), CReturn)] \<and>
         isWritingFlag (step Write s) \<and> writeAgainFlag (step Write s) = writeAgainFlag s"
  using assms
  by (simp add: write_public_def writeJSONFile_def Let_def closeWatcher_def cache_def
           split: option.splits)

lemma settle_single:
  assumes "pendingWrites s = [(data, dataString, k)]"
  shows "isWritingFlag (settle 0 True s) = writeAgainFlag s \<and>
         \<not> writeAgainFlag (settle 0 True s) \<and>
         length (fsWrites (settle 0 True s)) = length (fsWrites s) + (if writeAgainFlag s then 1 else 0) \<and>
         length (pendingWrites (settle 0 True s)) = (if writeAgainFlag s then 1 else 0) \<and>
         list_all (\<lambda>w. fst w = 0) (drop (length (fsWrites s)) (fsWrites (settle 0 True s)))"
proof -
  let ?s1 = "s\<lparr>pendingWrites := [], fileOnDisk := Json dataString\<rparr>"
  have r: "isWritingFlag (writeJSONFile_resume data ?s1) = writeAgainFlag s \<and>
         \<not> writeAgainFlag (writeJSONFile_resume data ?s1) \<and>
         length (fsWrites (writeJSONFile_resume data ?s1)) = length (fsWrites s) + (if writeAgainFlag s then 1 else 0) \<and>
         length (pendingWrites (writeJSONFile_resume data ?s1)) = (if writeAgainFlag s then 1 else 0) \<and>
         list_all (\<lambda>w. fst w = 0) (drop (length (fsWrites s)) (fsWrites (writeJSONFile_resume data ?s1)))"
    by (simp add: writeJSONFile_resume_def writeJSONFile_def Let_def closeWatcher_def
          watchFile_private_def split: option.splits)
  have "same_io (writeJSONFile_resume data ?s1) (resume_continuation k (writeJSONFile_resume data ?s1))"
    by (cases k) (simp_all add: resume_continuation_def same_io_refl same_io_initFinish)
  then show ?thesis using r assms by (simp add: settle_def same_io_def)
qed

lemma settle_single_idle:
  assumes "pendingWrites s = [(data, dataString, k)]" and "\<not> writeAgainFlag s"
  shows "fsWrites (settle 0 True s) = fsWrites s \<and> pendingWrites (settle 0 True s) = []"
proof -
  let ?s1 = "s\<lparr>pendingWrites := [], fileOnDisk := Json dataString\<rparr>"
  have r: "fsWrites (writeJSONFile_resume data ?s1) = fsWrites s \<and>
           pendingWrites (writeJSONFile_resume data ?s1) = []"
    using assms(2) by (simp add: writeJSONFile_resume_def Let_def watchFile_private_def)
  have "same_io (writeJSONFile_resume data ?s1) (resume_continuation k (writeJSONFile_resume data ?s1))"
    by (cases k) (simp_all add: resume_continuation_def same_io_refl same_io_initFinish)
  then show ?thesis using r assms(1) by (simp add: settle_def same_io_def)
qed

text \<open>
  Claim C1, as stated, at the example store. A burst of three \<open>set\<close> calls arrives
  while the file write started by \<open>write\<close> is in flight: \<open>set\<close> requests no save,
  so when the file write completes no follow-up write is made; one file write was made in
  all, the file holds 30 and the cache 33. And a burst of one \<open>set\<close> and one \<open>write\<close>
  leads to one follow-up write: two file writes for the two saves requested, which is not
  fewer.
\<close>

theorem write_coalescing_counterexample:
  "\<not> isWritingFlag example_store \<and>
   length (pendingWrites (step Write example_store)) = 1 \<and>
   list_all burst_event
     [Set (Key ''size'') (VNum 31), Set (Key ''size'') (VNum 32), Set (Key ''size'') (VNum 33)] \<and>
   length (fsWrites (run [Write, Set (Key ''size'') (VNum 31), Set (Key ''size'') (VNum 32),
                          Set (Key ''size'') (VNum 33), Settle 0 True] example_store)) = 1 \<and>
   pendingWrites (run [Write, Set (Key ''size'') (VNum 31), Set (Key ''size'') (VNum 32),
                       Set (Key ''size'') (VNum 33), Settle 0 True] example_store) = [] \<and>
   \<not> isWritingFlag (run [Write, Set (Key ''size'') (VNum 31), Set (Key ''size'') (VNum 32),
                          Set (Key ''size'') (VNum 33), Settle 0 True] example_store) \<and>
   fileOnDisk (run [Write, Set (Key ''size'') (VNum 31), Set (Key ''size'') (VNum 32),
                    Set (Key ''size'') (VNum 33), Settle 0 True] example_store)
     = Json [(''size'', VNum 30)] \<and>
   cache (run [Write, Set (Key ''size'') (VNum 31), Set (Key ''size'') (VNum 32),
               Set (Key ''size'') (VNum 33), Settle 0 True] example_store)
     = [(''size'', VNum 33)] \<and>
   list_all burst_event [Set (Key ''size'') (VNum 31), Write] \<and>
   length (filter save_request [Set (Key ''size'') (VNum 31), Write]) = 1 \<and>
   length (fsWrites (run [Write, Set (Key ''size'') (VNum 31), Write, Settle 0 True, Settle 0 True]
                       example_store)) = 2 \<and>
   pendingWrites (run [Write, Set (Key ''size'') (VNum 31), Write, Settle 0 True, Settle 0 True]
                    example_store) = [] \<and>
   \<not> length (fsWrites (run [Write, Set (Key ''size'') (VNum 31), Write, Settle 0 True,
                            Settle 0 True] example_store))
       - length (fsWrites example_store)
     < 1 + length (filter save_request [Set (Key ''size'') (VNum 31), Write])"
  by code_simp

text \<open>
  Claim C1, amended. In every state that a sequence of events reaches from a constructed
  store, at most one file write is pending, and every file write that was ever started
  was started with no other in flight. A save requested while the writing flag is set
  changes nothing but the write-again flag. And for a store that is not writing: after
  \<open>write\<close> has started a file write, a burst of mutations and save requests holding at
  least one save request starts no file write and leaves the write-again flag set; when
  the file write completes with success, exactly one more file write is started and the
  flag is cleared; when that one completes with success, nothing more is written and both
  flags are clear. So the first save and a burst holding \<open>N\<close> save requests make two
  file writes, fewer than the \<open>1 + N\<close> requested once the burst holds two save
  requests or more.
\<close>

theorem write_coalescing:
  assumes "s = run history (construct sch chk opts f)"
    and "\<not> isWritingFlag s"
    and "list_all burst_event burst"
    and "1 \<le> length (filter save_request burst)"
  shows
   "length (pendingWrites (run evs (construct sch chk opts f))) \<le> 1 \<and>
    list_all (\<lambda>w. fst w = 0) (fsWrites (run evs (construct sch chk opts f))) \<and>
    (isWritingFlag t \<longrightarrow>
       step Write t = t\<lparr>writeAgainFlag := True\<rparr> \<and> step WriteSync t = t\<lparr>writeAgainFlag := True\<rparr>) \<and>
    (let s1 = step Write s; s2 = run burst s1;
         s3 = step (Settle 0 True) s2; s4 = step (Settle 0 True) s3
     in length (fsWrites s1) = length (fsWrites s) + 1 \<and> length (pendingWrites s1) = 1 \<and>
        isWritingFlag s1 \<and>
        fsWrites s2 = fsWrites s1 \<and> pendingWrites s2 = pendingWrites s1 \<and> writeAgainFlag s2 \<and>
        length (fsWrites s3) = length (fsWrites s1) + 1 \<and> length (pendingWrites s3) = 1 \<and>
        \<not> writeAgainFlag s3 \<and>
        fsWrites s4 = fsWrites s3 \<and> pendingWrites s4 = [] \<and> \<not> isWritingFlag s4 \<and>
        \<not> writeAgainFlag s4 \<and>
        (2 \<le> length (filter save_request burst) \<longrightarrow>
           length (fsWrites s4) - length (fsWrites s) < 1 + length (filter save_request burst)))"
proof -
  have reach: "coalescing_inv (run evs (construct sch chk opts f))" for evs
    by (rule inv_run [OF inv_construct])
  have inv: "coalescing_inv s" using assms(1) reach by simp
  with assms(2) have idle: "pendingWrites s = []" by (simp add: coalescing_inv_def)
  let ?s1 = "step Write s"
  let ?s2 = "run burst ?s1"
  let ?s3 = "step (Settle 0 True) ?s2"
  let ?s4 = "step (Settle 0 True) ?s3"
  note w = write_starts [OF assms(2)]
  from w idle have p1: "pendingWrites ?s1 = [(cachedSettings s, stringify (cache s), CReturn)]"
    and busy: "isWritingFlag ?s1" and f1: "length (fsWrites ?s1) = length (fsWrites s) + 1"
    by simp_all
  from assms(4) have "filter save_request burst \<noteq> []" by auto
  then have ex: "list_ex save_request burst"
    by (simp add: list_ex_iff filter_empty_conv)
  note b = run_burst [OF busy assms(3)]
  from b ex have again: "writeAgainFlag ?s2" and p2: "pendingWrites ?s2 = pendingWrites ?s1"
    and f2: "fsWrites ?s2 = fsWrites ?s1" by simp_all
  from p1 p2 have p2': "pendingWrites ?s2 = [(cachedSettings s, stringify (cache s), CReturn)]"
    by simp
  note s3 = settle_single [OF p2']
  from s3 again f2 have f3: "length (fsWrites ?s3) = length (fsWrites ?s1) + 1"
    and p3: "length (pendingWrites ?s3) = 1" and a3: "\<not> writeAgainFlag ?s3" by simp_all
  from p3 obtain x where "pendingWrites ?s3 = [x]"
    by (cases "pendingWrites ?s3") simp_all
  then obtain data dataString k where p3': "pendingWrites ?s3 = [(data, dataString, k)]"
    by (cases x) simp
  note s4 = settle_single [OF p3']
  from s4 a3 have f4: "length (fsWrites ?s4) = length (fsWrites ?s3)"
    and p4: "pendingWrites ?s4 = []" and i4: "\<not> isWritingFlag ?s4" and a4: "\<not> writeAgainFlag ?s4"
    by simp_all
  have f4': "fsWrites ?s4 = fsWrites ?s3"
    using settle_single_idle [OF p3' a3] by simp
  from reach [of evs] have first: "length (pendingWrites (run evs (construct sch chk opts f))) \<le> 1"
    and log: "list_all (\<lambda>w. fst w = 0) (fsWrites (run evs (construct sch chk opts f)))"
    by (simp_all add: coalescing_inv_def)
  have busy_t: "isWritingFlag t \<longrightarrow>
       step Write t = t\<lparr>writeAgainFlag := True\<rparr> \<and> step WriteSync t = t\<lparr>writeAgainFlag := True\<rparr>"
    using step_Write_busy [of t] step_WriteSync_busy [of t] by blast
  have count: "2 \<le> length (filter save_request burst) \<longrightarrow>
           length (fsWrites ?s4) - length (fsWrites s) < 1 + length (filter save_request burst)"
    using f4 f3 f1 by simp
  show ?thesis
    unfolding Let_def
    using first log busy_t f1 p1 busy f2 p2 again f3 p3 a3 f4' p4 i4 a4 count
    by simp
qed

theorem write_coalescing_witness:
  "\<not> isWritingFlag (run [InitSync] example_new) \<and>
   list_all burst_event example_burst \<and>
   length (filter save_request example_burst) = 3 \<and>
   length (pendingWrites (run [InitSync, Write, Write] example_new)) \<le> 1 \<and>
   isWritingFlag (step Write (run [InitSync] example_new)) \<and>
   step Write (step Write (run [InitSync] example_new)) =
     (step Write (run [InitSync] example_new))\<lparr>writeAgainFlag := True\<rparr> \<and>
   length (pendingWrites (step Write (run [InitSync] example_new))) = 1 \<and>
   fsWrites (run example_burst (step Write (run [InitSync] example_new))) =
     fsWrites (step Write (run [InitSync] example_new)) \<and>
   writeAgainFlag (run example_burst (step Write (run [InitSync] example_new))) \<and>
   length (fsWrites (step (Settle 0 True)
       (run example_burst (step Write (run [InitSync] example_new))))) =
     length (fsWrites (step Write (run [InitSync] example_new))) + 1 \<and>
   pendingWrites (step (Settle 0 True) (step (Settle 0 True)
       (run example_burst (step Write (run [InitSync] example_new))))) = [] \<and>
   length (fsWrites (step (Settle 0 True) (step (Settle 0 True)
       (run example_burst (step Write (run [InitSync] example_new))))))
     - length (fsWrites (run [InitSync] example_new)) < 1 + 3"
proof -
  let ?s = "run [InitSync] example_new"
  have h1: "?s = run [InitSync]
      (construct example_schema example_check default_options (Json [(''size'', VNum 30)]))"
    by (simp add: example_new_def)
  have h2: "\<not> isWritingFlag ?s" by code_simp
  have h3: "list_all burst_event example_burst" by code_simp
  have n: "length (filter save_request example_burst) = 3" by code_simp
  then have h4: "1 \<le> length (filter save_request example_burst)" by simp
  have e: "run [InitSync, Write, Write] example_new = run [InitSync, Write, Write]
      (construct example_schema example_check default_options (Json [(''size'', VNum 30)]))"
    by (simp add: example_new_def)
  note t = write_coalescing [OF h1 h2 h3 h4, of "[InitSync, Write, Write]" "step Write ?s",
      unfolded Let_def, folded e]
  show ?thesis using t h2 h3 n by simp
qed

section \<open>The watcher's timer\<close>

lemma same_watch_refl: "same_watch s s"
  by (simp add: same_watch_def)

lemma same_watch_trans: "same_watch s s' \<Longrightarrow> same_watch s' s'' \<Longrightarrow> same_watch s s''"
  by (simp add: same_watch_def)

lemma same_watch_setCachedSettings: "same_watch s (setCachedSettings a s)"
  by (simp add: same_watch_def setCachedSettings_def sendIPCUpdateSettings_def Let_def)

lemma same_watch_alloc: "same_watch s (snd (alloc ob s))"
  by (simp add: same_watch_def alloc_def)

lemma same_watch_applyDefaults: "same_watch s (snd (applyDefaults es s))"
proof (induction es arbitrary: s)
  case Nil
  show ?case by (simp add: same_watch_refl)
next
  case (Cons e es)
  show ?case
  proof (cases "map_of (schema s) (field e)")
    case None
    then show ?thesis by (simp add: same_watch_refl)
  next
    case (Some d)
    let ?s' = "s\<lparr>heap := (heap s)(cachedSettings s := assign (cache s) (field e) (schema_default d))\<rparr>"
    have "same_watch s ?s'" by (simp add: same_watch_def)
    then show ?thesis using Some Cons.IH [of ?s'] by (auto intro: same_watch_trans)
  qed
qed

lemma same_watch_writeJSONFileSync: "same_watch s (snd (writeJSONFileSync data s))"
proof (induction data s rule: writeJSONFileSync.induct)
  case (1 data s)
  then show ?case
    by (subst writeJSONFileSync.simps)
       (auto simp: Let_def same_watch_def closeWatcher_def watchFile_private_def
             split: option.splits)
qed

lemma fileChanged_counts:
  "fileChangedCalls (fileChanged s) = Suc (fileChangedCalls s) \<and> timers (fileChanged s) = timers s"
proof -
  let ?s = "s\<lparr>fileChangedCalls := Suc (fileChangedCalls s)\<rparr>"
  have "same_watch ?s (fileChanged s)"
  proof (cases "fileOnDisk s")
    case Missing
    then show ?thesis by (simp add: fileChanged_def same_watch_refl)
  next
    case Unparsable
    then show ?thesis by (simp add: fileChanged_def same_watch_refl)
  next
    case (Json doc)
    obtain p s1 where al: "alloc doc ?s = (p, s1)" by (cases "alloc doc ?s")
    have b: "same_watch ?s s1" using same_watch_alloc [of ?s doc] al by simp
    have c: "same_watch ?s (setCachedSettings p s1)"
      by (rule same_watch_trans [OF b same_watch_setCachedSettings])
    have d: "same_watch ?s s2" if "applyDefaults es s1 = (r, s2)" for es r s2
      using same_watch_trans [OF b same_watch_applyDefaults [of s1 es]] that by simp
    have e: "same_watch ?s (snd (writeJSONFileSync (cachedSettings s2) s2))"
      if "applyDefaults es s1 = (r, s2)" for es r s2
      by (rule same_watch_trans [OF d [OF that] same_watch_writeJSONFileSync])
    show ?thesis
      using Json al b c d e
      by (auto simp: fileChanged_def Let_def split: check_result.splits prod.splits sum.splits)
  qed
  then show ?thesis by (simp add: same_watch_def)
qed

lemma watch_callback_waiting: "fsWait w t \<Longrightarrow> watch_callback w t = t"
  by (simp add: watch_callback_def)

lemma advance_before_due:
  assumes "timers s = [(w, due)]" and "now s + d < due"
  shows "advance d s = s\<lparr>now := now s + d\<rparr>"
  using assms by (simp add: advance_def Let_def)

lemma advance_due:
  assumes "timers s = [(w, due)]" and "due \<le> now s + d"
  shows "fileChangedCalls (advance d s) = Suc (fileChangedCalls s) \<and> timers (advance d s) = []"
  using assms by (simp add: advance_def Let_def timer_callback_def fileChanged_counts)

text \<open>
  Claim C6, as stated, at the watching example store, 20 s after its start: a first change
  event sets the timer for 21 s. A second change event 0.6 s later is a qualifying one
  (no save in flight, the last own write more than 10 s ago) and leaves the timer due at
  21 s: it is not restarted. At 21.1 s, only 0.5 s after that event, the reconciliation
  has run.
\<close>

theorem watcher_timer_counterexample:
  "openWatchers (run [Advance 20000000000] example_watching) = [0] \<and>
   timers (run [Advance 20000000000, FsChange] example_watching) = [(0, 21000000000)] \<and>
   now (run [Advance 20000000000, FsChange, Advance 600000000] example_watching) = 20600000000 \<and>
   lastWriteHrtime (run [Advance 20000000000, FsChange, Advance 600000000] example_watching) = 0 \<and>
   \<not> isWritingFlag (run [Advance 20000000000, FsChange, Advance 600000000] example_watching) \<and>
   timers (run [Advance 20000000000, FsChange, Advance 600000000, FsChange] example_watching)
     = [(0, 21000000000)] \<and>
   fileChangedCalls (run [Advance 20000000000, FsChange, Advance 600000000, FsChange]
                       example_watching) = 0 \<and>
   now (run [Advance 20000000000, FsChange, Advance 600000000, FsChange, Advance 500000000]
          example_watching) = 21100000000 \<and>
   fileChangedCalls (run [Advance 20000000000, FsChange, Advance 600000000, FsChange,
                          Advance 500000000] example_watching) = 1"
  by (simp add: example_watching_def construct_def initSync_def alloc_def setCachedSettings_def
      deepEqual_def strict_eq_def getprop_def sendIPCUpdateSettings_def cache_def
      validateSettingsSync_def fastValidateSettings_def example_check_def example_schema_def
      retreiveDefaults_def assign_def default_options_def initFinish_def watchFile_private_def
      advance_def watch_callback_def fsWait_def timer_callback_def fileChanged_def Let_def)

text \<open>
  Why the number of open watchers matters: when the settings file does not parse and the
  \<open>watchFile\<close> option is on, the save of the defaults arms a watcher and \<open>initSync\<close>
  arms another without closing the first. Each has its own timer, and one change event
  leads to two reconciliations.
\<close>

lemma two_watchers_after_init:
  "openWatchers example_unparsable = [0, 1] \<and> watcher example_unparsable = Some 1 \<and>
   fileChangedCalls (run [Advance 20000000000, FsChange, Advance 1000000000] example_unparsable) = 2"
  by (simp add: example_unparsable_def construct_def initSync_def alloc_def setCachedSettings_def
      deepEqual_def strict_eq_def getprop_def sendIPCUpdateSettings_def cache_def
      fastValidateSettings_def example_check_def example_schema_def
      retreiveDefaults_def assign_def default_options_def initFinish_def watchFile_private_def
      advance_def watch_callback_def fsWait_def timer_callback_def fileChanged_def Let_def
      writeJSONFileSync.simps closeWatcher_def stringify_def)

text \<open>
  Claim C6, amended. Let exactly one watcher be open, with no timer pending, no save in
  flight and the store's last own write at least \<open>1e10\<close> ns ago. A change event then
  sets the timer to 1000 ms from now. While the timer is pending, the watcher ignores
  change events: they do not restart it. After three change events of which the second
  and third come within 1000 ms of the first, nothing has changed but the clock and the
  timer, still due 1000 ms after the first event; and once 1000 ms have passed since the
  first event, the reconciliation has run exactly once and no timer is pending.
\<close>

theorem watcher_debounce:
  assumes "openWatchers s = [w]" and "timers s = []" and "\<not> isWritingFlag s"
    and "10000000000 \<le> now s - lastWriteHrtime s"
    and "d1 + d2 < 1000000000" and "1000000000 \<le> d1 + d2 + d3"
  shows "step FsChange s = s\<lparr>timers := [(w, now s + 1000000000)]\<rparr> \<and>
         (fsWait w t \<longrightarrow> watch_callback w t = t) \<and>
         run [FsChange, Advance d1, FsChange, Advance d2, FsChange] s =
           s\<lparr>timers := [(w, now s + 1000000000)], now := now s + d1 + d2\<rparr> \<and>
         fileChangedCalls (run [FsChange, Advance d1, FsChange, Advance d2, FsChange, Advance d3] s)
           = fileChangedCalls s + 1 \<and>
         timers (run [FsChange, Advance d1, FsChange, Advance d2, FsChange, Advance d3] s) = []"
proof -
  let ?due = "now s + 1000000000"
  let ?s1 = "s\<lparr>timers := [(w, ?due)]\<rparr>"
  let ?s2 = "?s1\<lparr>now := now s + d1\<rparr>"
  let ?s3 = "?s2\<lparr>now := now s + d1 + d2\<rparr>"
  have first: "step FsChange s = ?s1"
    using assms(1-4) by (simp add: watch_callback_def fsWait_def)
  have a1: "advance d1 ?s1 = ?s2"
    using assms(5) advance_before_due [of ?s1 w ?due d1] by simp
  have e2: "step FsChange ?s2 = ?s2"
    using assms(1) by (simp add: watch_callback_waiting fsWait_def)
  have a2: "advance d2 ?s2 = ?s3"
    using assms(5) advance_before_due [of ?s2 w ?due d2] by simp
  have e3: "step FsChange ?s3 = ?s3"
    using assms(1) by (simp add: watch_callback_waiting fsWait_def)
  have three: "run [FsChange, Advance d1, FsChange, Advance d2, FsChange] s = ?s3"
    using first a1 e2 a2 e3 by simp
  have six: "run [FsChange, Advance d1, FsChange, Advance d2, FsChange, Advance d3] s
               = advance d3 ?s3"
    using first a1 e2 a2 e3 by simp
  have fire: "fileChangedCalls (advance d3 ?s3) = Suc (fileChangedCalls ?s3) \<and>
              timers (advance d3 ?s3) = []"
    using assms(6) by (intro advance_due [of ?s3 w ?due d3]) simp_all
  have wait: "fsWait w t \<longrightarrow> watch_callback w t = t"
    by (simp add: watch_callback_waiting)
  have eq: "?s3 = s\<lparr>timers := [(w, now s + 1000000000)], now := now s + d1 + d2\<rparr>"
    by simp
  show ?thesis
    using first wait three six fire unfolding eq by simp
qed

theorem watcher_debounce_witness:
  "openWatchers (run [Advance 20000000000] example_watching) = [0] \<and>
   timers (run [Advance 20000000000] example_watching) = [] \<and>
   \<not> isWritingFlag (run [Advance 20000000000] example_watching) \<and>
   10000000000 \<le> now (run [Advance 20000000000] example_watching)
                    - lastWriteHrtime (run [Advance 20000000000] example_watching) \<and>
   (300000000 :: nat) + 300000000 < 1000000000 \<and>
   (1000000000 :: nat) \<le> 300000000 + 300000000 + 500000000 \<and>
   timers (step FsChange (run [Advance 20000000000] example_watching)) = [(0, 21000000000)] \<and>
   fsWait 0 (step FsChange (run [Advance 20000000000] example_watching)) \<and>
   watch_callback 0 (step FsChange (run [Advance 20000000000] example_watching)) =
     step FsChange (run [Advance 20000000000] example_watching) \<and>
   fileChangedCalls (run [FsChange, Advance 300000000, FsChange, Advance 300000000, FsChange]
                       (run [Advance 20000000000] example_watching)) = 0 \<and>
   fileChangedCalls (run [FsChange, Advance 300000000, FsChange, Advance 300000000, FsChange,
                          Advance 500000000] (run [Advance 20000000000] example_watching)) = 1 \<and>
   timers (run [FsChange, Advance 300000000, FsChange, Advance 300000000, FsChange,
                Advance 500000000] (run [Advance 20000000000] example_watching)) = []"
proof -
  let ?s = "run [Advance 20000000000] example_watching"
  have h: "openWatchers ?s = [0]" "timers ?s = []" "\<not> isWritingFlag ?s"
    "now ?s = 20000000000" "lastWriteHrtime ?s = 0" "fileChangedCalls ?s = 0"
    by (simp_all add: example_watching_def construct_def initSync_def alloc_def
        setCachedSettings_def deepEqual_def strict_eq_def getprop_def sendIPCUpdateSettings_def
        cache_def validateSettingsSync_def fastValidateSettings_def example_check_def
        example_schema_def retreiveDefaults_def assign_def default_options_def initFinish_def
        watchFile_private_def advance_def Let_def)
  have h4: "10000000000 \<le> now ?s - lastWriteHrtime ?s" using h by simp
  have d12: "(300000000 :: nat) + 300000000 < 1000000000" by simp
  have d123: "(1000000000 :: nat) \<le> 300000000 + 300000000 + 500000000" by simp
  note t = watcher_debounce [OF h(1) h(2) h(3) h4 d12 d123, of "step FsChange ?s"]
  from t have first: "step FsChange ?s = ?s\<lparr>timers := [(0, now ?s + 1000000000)]\<rparr>" by blast
  then have tm: "timers (step FsChange ?s) = [(0, 21000000000)]" using h(4) by simp
  then have w: "fsWait 0 (step FsChange ?s)" by (simp add: fsWait_def)
  from t w have ign: "watch_callback 0 (step FsChange ?s) = step FsChange ?s" by blast
  from t have three: "run [FsChange, Advance 300000000, FsChange, Advance 300000000, FsChange] ?s =
           ?s\<lparr>timers := [(0, now ?s + 1000000000)], now := now ?s + 300000000 + 300000000\<rparr>"
    by blast
  have c3: "fileChangedCalls (run [FsChange, Advance 300000000, FsChange, Advance 300000000, FsChange] ?s) = 0"
    unfolding three using h(6) by simp
  from t have c6': "fileChangedCalls (run [FsChange, Advance 300000000, FsChange,
      Advance 300000000, FsChange, Advance 500000000] ?s) = fileChangedCalls ?s + 1"
    and t6: "timers (run [FsChange, Advance 300000000, FsChange,
      Advance 300000000, FsChange, Advance 500000000] ?s) = []"
    by blast+
  have c6: "fileChangedCalls (run [FsChange, Advance 300000000, FsChange,
      Advance 300000000, FsChange, Advance 500000000] ?s) = 1"
    unfolding c6' using h(6) by simp
  show ?thesis
    using h(1) h(2) h(3) h4 d12 d123 tm w ign c3 c6 t6 by blast
qed

end
